theory Spec2Isabelle
  imports Complex_Main "HOL-Library.Multiset" "HOL-Library.Log_Nat"
begin

section \<open>JavaScript values used by the client\<close>

text \<open>
  The client is one React component (\<^verbatim>\<open>App\<close>), present in two copies. The model
  follows the copy that has the list of recent uploads; the copy in
  \<^verbatim>\<open>frontend/src/App.jsx\<close> has no such list, sends a second key with the process
  request and captions the analysis panel differently, and is otherwise the same code.

  Strings are modelled as \<^typ>\<open>string\<close>, one \<^typ>\<open>char\<close> per code unit below 256. A
  value that may be \<^verbatim>\<open>undefined\<close> or \<^verbatim>\<open>null\<close> has an option type, \<^term>\<open>None\<close>
  standing for the missing value.
\<close>

text \<open>\<^verbatim>\<open>s.startsWith(p)\<close>, searching from position 0.\<close>

definition startsWith :: "string \<Rightarrow> string \<Rightarrow> bool" where
  "startsWith s p = (take (length p) s = p)"

text \<open>Truthiness of a string that may be undefined: only a non-empty string is truthy.\<close>

fun truthy :: "string option \<Rightarrow> bool" where
  "truthy None = False"
| "truthy (Some s) = (s \<noteq> [])"

text \<open>\<^verbatim>\<open>a || d\<close> for a string \<^verbatim>\<open>a\<close> that may be undefined and a string default.\<close>

definition orElse :: "string option \<Rightarrow> string \<Rightarrow> string" where
  "orElse a d = (if truthy a then the a else d)"

text \<open>\<^verbatim>\<open>s.includes(sub)\<close>: \<^verbatim>\<open>sub\<close> occurs somewhere in \<^verbatim>\<open>s\<close>.\<close>

fun includes_str :: "string \<Rightarrow> string \<Rightarrow> bool" where
  "includes_str [] sub = (sub = [])"
| "includes_str (c # cs) sub = (startsWith (c # cs) sub \<or> includes_str cs sub)"

text \<open>
  \<^verbatim>\<open>s.split(sep)\<close> with a string separator and no limit: the string is scanned from
  the left, every occurrence of the separator closes the current piece and the scan
  resumes behind it; the rest of the string is the last piece. An empty separator splits
  into the single code units.
\<close>

fun splitFrom :: "string \<Rightarrow> string \<Rightarrow> string \<Rightarrow> string list" where
  "splitFrom sep cur [] = [cur]"
| "splitFrom sep cur (c # cs) =
     (if sep \<noteq> [] \<and> startsWith (c # cs) sep
      then cur # splitFrom sep [] (drop (length sep - 1) cs)
      else splitFrom sep (cur @ [c]) cs)"

definition split :: "string \<Rightarrow> string \<Rightarrow> string list" where
  "split s sep = (if sep = [] then map (\<lambda>c. [c]) s else splitFrom sep [] s)"

text \<open>\<^verbatim>\<open>xs[i]\<close>: reading an array out of range gives \<^verbatim>\<open>undefined\<close>.\<close>

definition index :: "'a list \<Rightarrow> nat \<Rightarrow> 'a option" where
  "index xs i = (if i < length xs then Some (xs ! i) else None)"

subsection \<open>Numbers\<close>

text \<open>
  A Number is a double (binary64): \<^verbatim>\<open>NaN\<close>, the two infinities, the negative zero, or a
  finite value, which is kept as the rational it denotes (\<^term>\<open>Fin 0\<close> is the positive
  zero). Every arithmetic operation computes the exact result and rounds it to the
  nearest double, a tie going to the even significand.
\<close>

datatype number = NaN | PosInf | NegInf | NegZero | Fin rat

fun is_inf :: "number \<Rightarrow> bool" where
  "is_inf PosInf = True"
| "is_inf NegInf = True"
| "is_inf _ = False"

fun is_zero :: "number \<Rightarrow> bool" where
  "is_zero NegZero = True"
| "is_zero (Fin x) = (x = 0)"
| "is_zero _ = False"

fun negative :: "number \<Rightarrow> bool" where
  "negative NegInf = True"
| "negative NegZero = True"
| "negative (Fin x) = (x < 0)"
| "negative _ = False"

fun magnitude :: "number \<Rightarrow> rat" where
  "magnitude (Fin x) = x"
| "magnitude _ = 0"

definition mk_zero :: "bool \<Rightarrow> number" where
  "mk_zero neg = (if neg then NegZero else Fin 0)"

definition mk_inf :: "bool \<Rightarrow> number" where
  "mk_inf neg = (if neg then NegInf else PosInf)"

text \<open>
  The binary exponent of a positive rational: the \<open>e\<close> with \<open>2\<^sup>e \<le> x < 2\<^sup>e\<^sup>+\<^sup>1\<close>, found
  from the bit lengths of numerator and denominator.
\<close>

definition exponent :: "rat \<Rightarrow> int" where
  "exponent x =
     (let (p, q) = quotient_of x; d = bitlen p - bitlen q
      in if 2 powi d \<le> x then d else d - 1)"

text \<open>The nearest integer, a tie going to the even one.\<close>

definition round_even :: "rat \<Rightarrow> int" where
  "round_even x =
     (let f = \<lfloor>x\<rfloor>; r = x - of_int f
      in if r < 1 / 2 then f else if 1 / 2 < r then f + 1 else if even f then f else f + 1)"

text \<open>
  Rounding an exact result to a double. The significand has 53 bits, so the doubles
  around \<open>x\<close> are the multiples of \<open>2\<^sup>e\<^sup>-\<^sup>5\<^sup>2\<close>, where \<open>e\<close> is the exponent of \<open>x\<close> but at
  least \<open>-1022\<close> (below that the doubles are subnormal and equally spaced). A result that
  rounds to \<open>2\<^sup>1\<^sup>0\<^sup>2\<^sup>4\<close> or more overflows to an infinity; one that rounds to 0 keeps its sign.
\<close>

definition fl :: "rat \<Rightarrow> number" where
  "fl x =
     (if x = 0 then Fin 0
      else
        (let a = \<bar>x\<bar>;
             e = max (exponent a) (- 1022);
             q = 2 powi (e - 52);
             y = of_int (round_even (a / q)) * q
         in if 2 powi 1024 \<le> y then mk_inf (x < 0)
            else if y = 0 then mk_zero (x < 0)
            else Fin (if x < 0 then - y else y)))"

text \<open>A count that reaches the code as a Number is the double nearest to it.\<close>

definition toNumber :: "int \<Rightarrow> number" where
  "toNumber i = fl (of_int i)"

text \<open>The operators \<^verbatim>\<open>a / b\<close> and \<^verbatim>\<open>a * b\<close> on Numbers.\<close>

definition js_div :: "number \<Rightarrow> number \<Rightarrow> number" where
  "js_div a b =
     (if a = NaN \<or> b = NaN then NaN
      else if is_inf a then (if is_inf b then NaN else mk_inf (negative a \<noteq> negative b))
      else if is_inf b then mk_zero (negative a \<noteq> negative b)
      else if is_zero b then (if is_zero a then NaN else mk_inf (negative a \<noteq> negative b))
      else if is_zero a then mk_zero (negative a \<noteq> negative b)
      else fl (magnitude a / magnitude b))"

definition js_mul :: "number \<Rightarrow> number \<Rightarrow> number" where
  "js_mul a b =
     (if a = NaN \<or> b = NaN then NaN
      else if is_inf a \<or> is_inf b then
        (if is_zero a \<or> is_zero b then NaN else mk_inf (negative a \<noteq> negative b))
      else if is_zero a \<or> is_zero b then mk_zero (negative a \<noteq> negative b)
      else fl (magnitude a * magnitude b))"

text \<open>\<^verbatim>\<open>Math.max(a, b)\<close>: \<^verbatim>\<open>NaN\<close> if either is; the positive zero is the larger zero.\<close>

fun less_eq_number :: "number \<Rightarrow> number \<Rightarrow> bool" where
  "less_eq_number NegInf _ = True"
| "less_eq_number _ PosInf = True"
| "less_eq_number PosInf _ = False"
| "less_eq_number _ NegInf = False"
| "less_eq_number NegZero b = (0 \<le> magnitude b)"
| "less_eq_number (Fin x) NegZero = (x < 0)"
| "less_eq_number (Fin x) (Fin y) = (x \<le> y)"
| "less_eq_number NaN _ = False"
| "less_eq_number _ NaN = False"

definition Math_max :: "number \<Rightarrow> number \<Rightarrow> number" where
  "Math_max a b = (if a = NaN \<or> b = NaN then NaN else if less_eq_number a b then b else a)"

text \<open>
  \<^verbatim>\<open>Math.round(x)\<close>: the integer nearest to \<^verbatim>\<open>x\<close>, a tie going up; it is exact, since
  every double from \<open>2\<^sup>5\<^sup>2\<close> on is an integer. Its results are the integral Numbers, kept
  as a type of their own so that they can be printed.
\<close>

datatype integral = INaN | IPosInf | INegInf | INegZero | IInt int

fun Math_round :: "number \<Rightarrow> integral" where
  "Math_round NaN = INaN"
| "Math_round PosInf = IPosInf"
| "Math_round NegInf = INegInf"
| "Math_round NegZero = INegZero"
| "Math_round (Fin x) = (if x < 0 \<and> \<lfloor>x + 1 / 2\<rfloor> = 0 then INegZero else IInt \<lfloor>x + 1 / 2\<rfloor>)"

text \<open>Decimal digits of a natural number, most significant first.\<close>

definition digit_char :: "nat \<Rightarrow> char" where
  "digit_char d = char_of (48 + d)"

function show_nat :: "nat \<Rightarrow> string" where
  "show_nat n = (if n < 10 then [digit_char n] else show_nat (n div 10) @ [digit_char (n mod 10)])"
  by pat_completeness auto
termination
  by (relation "measure (\<lambda>n. n)") auto

declare show_nat.simps [simp del]

text \<open>
  The string of an integral Number, as a template literal \<^verbatim>\<open>`${x}`\<close> inserts it: all its
  decimal digits (the exponent notation of values from \<^verbatim>\<open>1e21\<close> on is not modelled).
\<close>

fun toString :: "integral \<Rightarrow> string" where
  "toString INaN = ''NaN''"
| "toString IPosInf = ''Infinity''"
| "toString INegInf = ''-Infinity''"
| "toString INegZero = ''0''"
| "toString (IInt i) = (if i < 0 then ''-'' @ show_nat (nat (- i)) else show_nat (nat i))"

text \<open>
  \<^verbatim>\<open>parseInt(x)\<close> with no radix: leading white space is skipped, a sign is read, a
  prefix \<^verbatim>\<open>0x\<close> or \<^verbatim>\<open>0X\<close> selects radix 16, and the longest run of digits is the
  value; with no digit the result is \<^verbatim>\<open>NaN\<close>. The argument \<^verbatim>\<open>undefined\<close> is read as
  the string \<^verbatim>\<open>undefined\<close>, which has no digit. The result is the double nearest to
  the value read.
\<close>

definition isWhiteSpace :: "char \<Rightarrow> bool" where
  "isWhiteSpace c = (of_char c \<in> {9, 10, 11, 12, 13, 32, 160 :: nat})"

definition digitVal :: "nat \<Rightarrow> char \<Rightarrow> nat option" where
  "digitVal R c =
     (let n = (of_char c :: nat);
          v = (if 48 \<le> n \<and> n \<le> 57 then Some (n - 48)
               else if 97 \<le> n \<and> n \<le> 122 then Some (n - 87)
               else if 65 \<le> n \<and> n \<le> 90 then Some (n - 55)
               else None)
      in case v of None \<Rightarrow> None | Some d \<Rightarrow> if d < R then Some d else None)"

text \<open>The characters \<^verbatim>\<open>0\<close> to \<^verbatim>\<open>9\<close>.\<close>

definition isDecimalDigit :: "char \<Rightarrow> bool" where
  "isDecimalDigit c = (48 \<le> (of_char c :: nat) \<and> (of_char c :: nat) \<le> 57)"

definition digitsValue :: "nat \<Rightarrow> string \<Rightarrow> nat" where
  "digitsValue R Z = foldl (\<lambda>a c. a * R + the (digitVal R c)) 0 Z"

fun parseInt :: "string option \<Rightarrow> number" where
  "parseInt None = NaN"
| "parseInt (Some s) =
     (let s1 = dropWhile isWhiteSpace s;
          neg = (s1 \<noteq> [] \<and> hd s1 = CHR ''-'');
          s2 = (if s1 \<noteq> [] \<and> (hd s1 = CHR ''+'' \<or> hd s1 = CHR ''-'') then tl s1 else s1);
          hex = (startsWith s2 ''0x'' \<or> startsWith s2 ''0X'');
          R = (if hex then 16 else 10);
          s3 = (if hex then drop 2 s2 else s2);
          Z = takeWhile (\<lambda>c. digitVal R c \<noteq> None) s3
      in if Z = [] then NaN
         else if digitsValue R Z = 0 then mk_zero neg
         else fl (if neg then - of_nat (digitsValue R Z) else of_nat (digitsValue R Z)))"

section \<open>The API base URL\<close>

text \<open>
  \<^verbatim>\<open>
  let API_BASE = import.meta.env.VITE_API_BASE_URL || 'http://localhost:8000';
  if (API_BASE && !API_BASE.startsWith('http')) {
    API_BASE = `https://${API_BASE}`;
  }
  \<close>
  The argument is the configured environment variable.
\<close>

definition API_BASE :: "string option \<Rightarrow> string" where
  "API_BASE env =
     (let base = orElse env ''http://localhost:8000''
      in if truthy (Some base) \<and> \<not> startsWith base ''http''
         then ''https://'' @ base else base)"

section \<open>Data received from the server\<close>

text \<open>
  A clip, an upload and a job as the server's JSON gives them. A field that may be
  missing or \<^verbatim>\<open>null\<close> has an option type. A score is a JSON number.
\<close>

record clip =
  path :: string
  title :: "string option"
  score :: "rat option"
  transcript_text :: "string option"

record upload =
  upload_path :: string
  filename :: string
  thumbnail :: "string option"
  has_transcript :: bool
  upload_clips :: "clip list option"

record job =
  job_status :: string
  job_clips :: "clip list option"
  job_error :: "string option"

text \<open>
  An awaited request either resolves with the response's data or rejects with an error,
  of which the client reads the message.
\<close>

datatype 'a reply = Rejected string | Resolved 'a

text \<open>
  The requests the component sends: \<^verbatim>\<open>GET /api/uploads\<close>, \<^verbatim>\<open>GET /api/jobs/<id>\<close>,
  \<^verbatim>\<open>POST /api/upload\<close> with the chosen file as form data, and
  \<^verbatim>\<open>POST /api/process?path=<path>&gemini_api_key=<key>\<close>.
\<close>

datatype request = GetUploads | GetJob string | PostUpload string | PostProcess string string

section \<open>The state of the component\<close>

text \<open>
  The state variables of \<^verbatim>\<open>App\<close> (the chosen file is kept by its name), and the handle
  of the polling timer that the second effect creates: the job its callback polls and
  its period in milliseconds, \<^term>\<open>None\<close> once cleared.
\<close>

record app =
  file_state :: "string option"
  status :: string
  jobId :: "string option"
  progress :: string
  clips :: "clip list option"
  error :: "string option"
  uploads :: "upload list"
  apiKey :: string
  interval :: "(string \<times> nat) option"

text \<open>
  After a handler has set state, the component renders again and its effects run:
  \<^verbatim>\<open>
  useEffect(() => { fetchUploads() }, [status])
  useEffect(() => {
    if (status === 'processing' && jobId) {
      const interval = setInterval(async () => { ... }, 2000)
      return () => clearInterval(interval)
    }
  }, [status, jobId])
  \<close>
  An effect runs when one of its dependencies differs from the previous render; the
  second one first clears the timer it had created.
\<close>

definition effects :: "app \<Rightarrow> app \<Rightarrow> app \<times> request list" where
  "effects old new =
     (if status new = status old \<and> jobId new = jobId old then new
      else new\<lparr>interval :=
                 (if status new = ''processing'' \<and> truthy (jobId new)
                  then Some (the (jobId new), 2000) else None)\<rparr>,
      if status new = status old then [] else [GetUploads])"

text \<open>
  The body of the timer's callback, once its request has settled:
  \<^verbatim>\<open>
  try {
    const res = await axios.get(`${API_BASE}/api/jobs/${jobId}`)
    const job = res.data
    setProgress(job.status)
    if (job.status === 'done') {
      setClips(job.clips); setStatus('done'); clearInterval(interval)
    } else if (job.status === 'failed') {
      setError(job.error || 'Job failed'); setStatus('error'); clearInterval(interval)
    }
  } catch (err) { console.error("Polling error", err) }
  \<close>
\<close>

definition pollCallback :: "job reply \<Rightarrow> app \<Rightarrow> app" where
  "pollCallback r s =
     (case r of
        Rejected err \<Rightarrow> s
      | Resolved j \<Rightarrow>
          (let s1 = s\<lparr>progress := job_status j\<rparr>
           in if job_status j = ''done''
              then s1\<lparr>clips := job_clips j, status := ''done'', interval := None\<rparr>
              else if job_status j = ''failed''
              then s1\<lparr>error := Some (orElse (job_error j) ''Job failed''),
                      status := ''error'', interval := None\<rparr>
              else s1))"

text \<open>
  One period of the timer: while the timer exists its callback sends the request for
  the job it polls and handles the reply; a cleared timer does not fire.
\<close>

definition tick :: "job reply \<Rightarrow> app \<Rightarrow> app \<times> request list" where
  "tick r s =
     (case interval s of
        None \<Rightarrow> (s, [])
      | Some (jid, ms) \<Rightarrow>
          (let (s', reqs) = effects s (pollCallback r s) in (s', GetJob jid # reqs)))"

fun ticks :: "job reply list \<Rightarrow> app \<Rightarrow> app \<times> request list" where
  "ticks [] s = (s, [])"
| "ticks (r # rs) s =
     (let (s1, q1) = tick r s; (s2, q2) = ticks rs s1 in (s2, q1 @ q2))"

text \<open>
  \<^verbatim>\<open>startProcessingExisting(path)\<close> up to its \<^verbatim>\<open>await\<close>, and the continuation
  shared with \<^verbatim>\<open>startUpload\<close> once the process request has settled.
\<close>

definition startProcessingExisting :: "string \<Rightarrow> app \<Rightarrow> app \<times> request list" where
  "startProcessingExisting p s =
     (let (s', reqs) = effects s (s\<lparr>status := ''processing''\<rparr>)
      in (s', PostProcess p (apiKey s) # reqs))"

definition processSettled :: "string option reply \<Rightarrow> app \<Rightarrow> app \<times> request list" where
  "processSettled r s =
     (case r of
        Resolved job_id \<Rightarrow> effects s (s\<lparr>jobId := job_id\<rparr>)
      | Rejected msg \<Rightarrow> effects s (s\<lparr>error := Some msg, status := ''error''\<rparr>))"

text \<open>
  \<^verbatim>\<open>startUpload\<close>: nothing without a file; otherwise the file is posted, every progress
  event of the upload sets the progress string, and when the upload has settled the
  process request is sent for the stored path.
\<close>

definition startUpload :: "app \<Rightarrow> app \<times> request list" where
  "startUpload s =
     (case file_state s of
        None \<Rightarrow> (s, [])
      | Some f \<Rightarrow>
          (let (s', reqs) = effects s (s\<lparr>status := ''uploading''\<rparr>)
           in (s', PostUpload f # reqs)))"

text \<open>
  A progress event carries the bytes sent so far and the bytes to send;
  \<^verbatim>\<open>Math.round((progressEvent.loaded * 100) / progressEvent.total)\<close> is the percentage.
\<close>

record progressEvent =
  loaded :: int
  total :: int

definition percentCompleted :: "progressEvent \<Rightarrow> integral" where
  "percentCompleted ev =
     Math_round (js_div (js_mul (toNumber (loaded ev)) (Fin 100)) (toNumber (total ev)))"

definition onUploadProgress :: "progressEvent \<Rightarrow> app \<Rightarrow> app" where
  "onUploadProgress ev s = s\<lparr>progress := ''uploading: '' @ toString (percentCompleted ev) @ ''%''\<rparr>"

definition uploadSettled :: "string reply \<Rightarrow> app \<Rightarrow> app \<times> request list" where
  "uploadSettled r s =
     (case r of
        Resolved filePath \<Rightarrow>
          (let (s', reqs) = effects s (s\<lparr>status := ''processing''\<rparr>)
           in (s', PostProcess filePath (apiKey s) # reqs))
      | Rejected msg \<Rightarrow> effects s (s\<lparr>error := Some msg, status := ''error''\<rparr>))"

text \<open>
  The buttons. \<^verbatim>\<open>View N Clips\<close> of an upload's row:
  \<^verbatim>\<open>setClips(upload.clips); setStatus('done')\<close>; the row's other button calls
  \<^verbatim>\<open>startProcessingExisting(upload.path)\<close>.
\<close>

definition clickView :: "upload \<Rightarrow> app \<Rightarrow> app \<times> request list" where
  "clickView u s = effects s (s\<lparr>clips := upload_clips u, status := ''done''\<rparr>)"

definition clickGenerate :: "upload \<Rightarrow> app \<Rightarrow> app \<times> request list" where
  "clickGenerate u s = startProcessingExisting (upload_path u) s"

definition clickProcessNew :: "app \<Rightarrow> app \<times> request list" where
  "clickProcessNew s = effects s (s\<lparr>status := ''idle'', file_state := None, clips := Some []\<rparr>)"

definition clickTryAgain :: "app \<Rightarrow> app \<times> request list" where
  "clickTryAgain s = effects s (s\<lparr>status := ''idle'', file_state := None, error := None\<rparr>)"

text \<open>\<^verbatim>\<open>fetchUploads\<close> once its request has settled: only an array replaces the list.\<close>

definition uploadsSettled :: "upload list option reply \<Rightarrow> app \<Rightarrow> app" where
  "uploadsSettled r s =
     (case r of Resolved (Some us) \<Rightarrow> s\<lparr>uploads := us\<rparr> | _ \<Rightarrow> s)"

text \<open>
  The state at the first render; the argument is the key kept in local storage. After
  the first render both effects run: the uploads list is fetched, and no timer is
  created since the status is \<^verbatim>\<open>idle\<close>.
\<close>

definition initial :: "string \<Rightarrow> app" where
  "initial key =
     \<lparr>file_state = None, status = ''idle'', jobId = None, progress = ''waiting'',
      clips = Some [], error = None, uploads = [], apiKey = key, interval = None\<rparr>"

definition mount :: "string \<Rightarrow> app \<times> request list" where
  "mount key = (initial key, [GetUploads])"

section \<open>What the component renders\<close>

subsection \<open>The progress panel\<close>

text \<open>
  While the status is \<^verbatim>\<open>uploading\<close> or \<^verbatim>\<open>processing\<close> the progress string decides
  what is shown. Three prefixes select the measured form:
  \<^verbatim>\<open>progress.startsWith('transcribing') || progress.startsWith('rendering')
    || progress.startsWith('uploading')\<close>.
\<close>

definition measured :: "string \<Rightarrow> bool" where
  "measured p =
     (startsWith p ''transcribing'' \<or> startsWith p ''rendering'' \<or> startsWith p ''uploading'')"

text \<open>
  The round badge: the text
  \<^verbatim>\<open>
  const val = progress.split(': ')[1];
  if (!val) return '...';
  if (val === 'preparing...') return '5%';
  return val;
  \<close>
  inside a circle for a measured stage, a bare spinner otherwise.
\<close>

datatype badge = Circle string | Spinner

definition circleText :: "string \<Rightarrow> string" where
  "circleText p =
     (case index (split p '': '') 1 of
        None \<Rightarrow> ''...''
      | Some val \<Rightarrow>
          if val = [] then ''...''
          else if val = ''preparing...'' then ''5%''
          else val)"

definition progressBadge :: "string \<Rightarrow> badge" where
  "progressBadge p = (if measured p then Circle (circleText p) else Spinner)"

text \<open>
  The width of the bar:
  \<^verbatim>\<open>
  const val = progress.split(': ')[1];
  if (!val) return '5%';
  if (val === 'preparing...') return '5%';
  if (progress.startsWith('rendering')) {
    const parts = val.split('/') || [0, 1];
    return `${Math.max(5, (parseInt(parts[0]) / parseInt(parts[1])) * 100)}%`;
  }
  return val.includes('%') ? val : `${val}%`;
  \<close>
  \<^verbatim>\<open>split\<close> always returns an array, so the alternative \<^verbatim>\<open>[0, 1]\<close> is never taken.
  \<^term>\<open>Percent x\<close> stands for the string made of the Number \<open>x\<close> and a percent sign.
\<close>

datatype width = Literal string | Percent number

definition barWidth :: "string \<Rightarrow> width" where
  "barWidth p =
     (case index (split p '': '') 1 of
        None \<Rightarrow> Literal ''5%''
      | Some val \<Rightarrow>
          if val = [] then Literal ''5%''
          else if val = ''preparing...'' then Literal ''5%''
          else if startsWith p ''rendering'' then
            (let parts = split val ''/''
             in Percent (Math_max (Fin 5)
                  (js_mul (js_div (parseInt (index parts 0)) (parseInt (index parts 1))) (Fin 100))))
          else if includes_str val ''%'' then Literal val
          else Literal (val @ ''%''))"

text \<open>
  The panel under the heading: for a measured stage the stage name
  \<^verbatim>\<open>progress.split(':')[0]\<close>, the detail \<^verbatim>\<open>progress.split(': ')[1]\<close> and the bar; for
  a progress string that starts with \<^verbatim>\<open>analyzing\<close> two fixed captions over a pulsing
  full bar; otherwise the line \<^verbatim>\<open>Current Step: <progress>\<close>.
\<close>

datatype panel =
    Bar "string option" "string option" width
  | Pulse string string
  | CurrentStep string

definition progressPanel :: "string \<Rightarrow> panel" where
  "progressPanel p =
     (if measured p then Bar (index (split p '':'') 0) (index (split p '': '') 1) (barWidth p)
      else if startsWith p ''analyzing'' then Pulse ''Analyzing Transcript'' ''AI is finding clips...''
      else CurrentStep p)"

text \<open>
  The copy of the component in \<^verbatim>\<open>frontend/src/App.jsx\<close> differs in the left caption
  of the analysis panel, which is the progress string itself.
\<close>

definition progressPanel_frontend :: "string \<Rightarrow> panel" where
  "progressPanel_frontend p =
     (if measured p then Bar (index (split p '':'') 0) (index (split p '': '') 1) (barWidth p)
      else if startsWith p ''analyzing'' then Pulse p ''AI is finding clips...''
      else CurrentStep p)"

subsection \<open>The gallery of clips\<close>

text \<open>
  \<^verbatim>\<open>[...clips].sort((a, b) => (b.score || 0) - (a.score || 0))\<close>. A missing score and
  the score 0 are both falsy. \<^verbatim>\<open>Array.prototype.sort\<close> is stable and orders by the sign
  of the comparator; it is modelled as the stable insertion sort, which for a consistent
  comparator gives the one result that the language allows. Only the sign of the
  difference is used, and the rounded difference of two doubles has the sign of the exact
  one, so the difference is not rounded here.
\<close>

definition scoreOrZero :: "clip \<Rightarrow> rat" where
  "scoreOrZero c = (case score c of None \<Rightarrow> 0 | Some x \<Rightarrow> if x = 0 then 0 else x)"

definition compareScore :: "clip \<Rightarrow> clip \<Rightarrow> rat" where
  "compareScore a b = scoreOrZero b - scoreOrZero a"

fun insertSorted :: "('a \<Rightarrow> 'a \<Rightarrow> rat) \<Rightarrow> 'a \<Rightarrow> 'a list \<Rightarrow> 'a list" where
  "insertSorted cmp x [] = [x]"
| "insertSorted cmp x (y # ys) =
     (if cmp x y \<le> 0 then x # y # ys else y # insertSorted cmp x ys)"

definition array_sort :: "('a \<Rightarrow> 'a \<Rightarrow> rat) \<Rightarrow> 'a list \<Rightarrow> 'a list" where
  "array_sort cmp xs = foldr (insertSorted cmp) xs []"

text \<open>
  Arrays are objects: \<^verbatim>\<open>sort\<close> reorders its receiver in place and \<^verbatim>\<open>[...a]\<close>
  allocates a new array with the elements of \<^verbatim>\<open>a\<close>. The store maps references to
  arrays; \<^term>\<open>next_ref\<close> is the next unused reference.
\<close>

record store =
  arrays :: "nat \<rightharpoonup> clip list"
  next_ref :: nat

definition spread :: "nat \<Rightarrow> store \<Rightarrow> (nat \<times> store) option" where
  "spread a h =
     (case arrays h a of
        None \<Rightarrow> None
      | Some xs \<Rightarrow>
          Some (next_ref h, h\<lparr>arrays := (arrays h)(next_ref h \<mapsto> xs), next_ref := Suc (next_ref h)\<rparr>))"

definition sort_in_place :: "(clip \<Rightarrow> clip \<Rightarrow> rat) \<Rightarrow> nat \<Rightarrow> store \<Rightarrow> store" where
  "sort_in_place cmp a h =
     (case arrays h a of
        None \<Rightarrow> h
      | Some xs \<Rightarrow> h\<lparr>arrays := (arrays h)(a \<mapsto> array_sort cmp xs)\<rparr>)"

text \<open>
  The expression of the gallery on the store: the reference of the array that is
  displayed, and the store afterwards. It fails when \<^verbatim>\<open>clips\<close> is not an array.
\<close>

definition displayedClips :: "nat \<Rightarrow> store \<Rightarrow> (nat \<times> store) option" where
  "displayedClips a h =
     (case spread a h of
        None \<Rightarrow> None
      | Some (r, h1) \<Rightarrow> Some (r, sort_in_place compareScore r h1))"

text \<open>
  The badge of a card:
  \<^verbatim>\<open>
  {clip.score != null && (
    <span className={`... ${clip.score >= 80 ? 'bg-emerald-900/50 text-emerald-400' :
      clip.score >= 60 ? 'bg-yellow-900/50 text-yellow-400' :
        'bg-slate-800 text-slate-400'}`}>{clip.score}</span>)}
  \<close>
\<close>

datatype badge_class = Emerald | Yellow | Slate

definition scoreClass :: "rat \<Rightarrow> badge_class" where
  "scoreClass x = (if x \<ge> 80 then Emerald else if x \<ge> 60 then Yellow else Slate)"

definition scoreBadge :: "clip \<Rightarrow> (badge_class \<times> rat) option" where
  "scoreBadge c = (case score c of None \<Rightarrow> None | Some x \<Rightarrow> Some (scoreClass x, x))"

text \<open>
  A card shows the clip's video (named here by the clip's path, which the component
  appends to \<^verbatim>\<open>${API_BASE}/static/\<close>), its title
  (\<^verbatim>\<open>clip.title || `Clip ${idx + 1}`\<close>), the badge and the transcript excerpt.
\<close>

record card =
  card_video :: string
  card_title :: string
  card_badge :: "(badge_class \<times> rat) option"
  card_transcript :: "string option"

definition clipCard :: "nat \<Rightarrow> clip \<Rightarrow> card" where
  "clipCard idx c =
     \<lparr>card_video = path c,
      card_title = orElse (title c) (''Clip '' @ show_nat (idx + 1)),
      card_badge = scoreBadge c,
      card_transcript = (if truthy (transcript_text c) then transcript_text c else None)\<rparr>"

definition gallery :: "clip list \<Rightarrow> card list" where
  "gallery cs = map (\<lambda>(idx, c). clipCard idx c) (enumerate 0 (array_sort compareScore cs))"

subsection \<open>The screen\<close>

text \<open>
  The main area shows one of four blocks, chosen by the status; for any other status it
  is empty. Rendering the gallery fails when \<^verbatim>\<open>clips\<close> is not an array.
\<close>

datatype screen =
    IdleScreen "string option" "(string option \<times> string) list"
  | WorkingScreen string badge panel
  | ErrorScreen "string option"
  | DoneScreen "card list"
  | Empty
  | RenderError

text \<open>
  A row of the uploads list has the button \<^verbatim>\<open>View N Clips\<close> when the upload has
  clips, and a second button named \<^verbatim>\<open>Regenerate\<close> or \<^verbatim>\<open>Generate Clips\<close>.
\<close>

definition hasClips :: "upload \<Rightarrow> bool" where
  "hasClips u = (case upload_clips u of None \<Rightarrow> False | Some cs \<Rightarrow> length cs > 0)"

definition uploadRow :: "upload \<Rightarrow> string option \<times> string" where
  "uploadRow u =
     (if hasClips u
      then Some (''View '' @ show_nat (length (the (upload_clips u))) @ '' Clips'') else None,
      if hasClips u then ''Regenerate'' else ''Generate Clips'')"

definition render :: "app \<Rightarrow> screen" where
  "render s =
     (if status s = ''idle'' then IdleScreen (file_state s) (map uploadRow (uploads s))
      else if status s = ''uploading'' \<or> status s = ''processing'' then
        WorkingScreen (if status s = ''uploading'' then ''Uploading Video...'' else ''Processing...'')
          (progressBadge (progress s)) (progressPanel (progress s))
      else if status s = ''error'' then ErrorScreen (error s)
      else if status s = ''done'' then
        (case clips s of None \<Rightarrow> RenderError | Some cs \<Rightarrow> DoneScreen (gallery cs))
      else Empty)"

section \<open>The percentage in the spec's words\<close>

text \<open>
  The percentage that the spec's upload scenario names: 100 times the part transferred,
  rounded to the nearest integer.
\<close>

definition spec_percent :: "int \<Rightarrow> int \<Rightarrow> int" where
  "spec_percent l t = round (100 * of_int l / of_int t :: rat)"

section \<open>A run of the component\<close>

text \<open>
  The state reached from the first render when the user asks for clips of the stored
  upload \<^verbatim>\<open>uploads/talk.mp4\<close> and the server answers with the job \<^verbatim>\<open>j1\<close>.
\<close>

definition polling_example :: app where
  "polling_example =
     fst (processSettled (Resolved (Some ''j1''))
       (fst (startProcessingExisting ''uploads/talk.mp4'' (initial ''key''))))"

text \<open>
  The run goes on: the job is reported done with one clip; the user presses
  \<^verbatim>\<open>Process New Video\<close> and then asks for clips of another stored upload.
\<close>

definition finished_example :: app where
  "finished_example =
     fst (tick (Resolved \<lparr>job_status = ''done'',
                 job_clips = Some [\<lparr>path = ''clips/talk_1.mp4'', title = None, score = Some 90,
                                    transcript_text = None\<rparr>],
                 job_error = None\<rparr>) polling_example)"

definition rerun_example :: app where
  "rerun_example =
     fst (clickGenerate
       \<lparr>upload_path = ''uploads/other.mp4'', filename = ''other.mp4'', thumbnail = None,
        has_transcript = False, upload_clips = None\<rparr>
       (fst (clickProcessNew finished_example)))"

section \<open>Properties\<close>

lemma startsWith_append [simp]: "startsWith (p @ s) p"
  by (simp add: startsWith_def)

text \<open>
  Claim C9, as the code has it: an unset or empty base URL is replaced by the default
  \<^verbatim>\<open>http://localhost:8000\<close>; a non-empty one that starts with \<^verbatim>\<open>http\<close> is used
  unchanged; any other non-empty one is prefixed with \<^verbatim>\<open>https://\<close>.
\<close>

theorem API_BASE_cases:
  "API_BASE None = ''http://localhost:8000''
   \<and> API_BASE (Some []) = ''http://localhost:8000''
   \<and> (b \<noteq> [] \<and> startsWith b ''http'' \<longrightarrow> API_BASE (Some b) = b)
   \<and> (b \<noteq> [] \<and> \<not> startsWith b ''http'' \<longrightarrow> API_BASE (Some b) = ''https://'' @ b)"
  by (simp add: API_BASE_def orElse_def Let_def startsWith_def)

theorem API_BASE_cases_witness:
  "API_BASE (Some ''https://api.example.org'') = ''https://api.example.org''
   \<and> API_BASE (Some ''api.example.org'') = ''https://api.example.org''"
  using API_BASE_cases [of "''https://api.example.org''"] API_BASE_cases [of "''api.example.org''"]
  by (simp add: startsWith_def)

text \<open>
  The claim as written fails at the empty string: the configured value \<^verbatim>\<open>''\<close> is not
  used unchanged.
\<close>

theorem API_BASE_empty_counterexample:
  "API_BASE (Some []) \<noteq> []"
  by (simp add: API_BASE_def orElse_def Let_def startsWith_def)

subsection \<open>Rounding to a double\<close>

lemma bitlen_powi:
  assumes "0 < p"
  shows "(2::rat) powi (bitlen p - 1) \<le> of_int p" and "of_int p < (2::rat) powi bitlen p"
proof -
  have b: "1 \<le> bitlen p" using assms bitlen_eq_zero_iff [of p] bitlen_nonneg [of p] by linarith
  have "(2::int) ^ nat (bitlen p - 1) \<le> p" and "p < 2 ^ nat (bitlen p)"
    using bitlen_bounds [OF assms] by simp_all
  then have "of_int ((2::int) ^ nat (bitlen p - 1)) \<le> (of_int p :: rat)"
    and "(of_int p :: rat) < of_int (2 ^ nat (bitlen p))"
    by (simp_all only: of_int_le_iff of_int_less_iff)
  then show "(2::rat) powi (bitlen p - 1) \<le> of_int p" and "of_int p < (2::rat) powi bitlen p"
    using b by (simp_all add: power_int_nonneg_exp)
qed

lemma exponent_bounds:
  assumes "0 < x"
  shows "2 powi exponent x \<le> x" and "x < 2 powi (exponent x + 1)"
proof -
  obtain p q where pq: "quotient_of x = (p, q)" by (cases "quotient_of x")
  have q: "0 < q" using pq quotient_of_denom_pos by blast
  have x: "x = of_int p / of_int q" using pq by (rule quotient_of_div)
  have p: "0 < p" using assms q x by (simp add: zero_less_divide_iff)
  let ?d = "bitlen p - bitlen q"
  have qpos: "(0::rat) < of_int q" using q by simp
  have up: "x < 2 powi (?d + 1)"
  proof -
    have "of_int p < (2::rat) powi bitlen p" using p by (rule bitlen_powi)
    moreover have "(2::rat) powi (bitlen q - 1) \<le> of_int q" using q by (rule bitlen_powi)
    moreover have "(0::rat) < 2 powi (bitlen q - 1)" by simp
    ultimately have "of_int p / of_int q < (2::rat) powi bitlen p / 2 powi (bitlen q - 1)"
      using p by (intro frac_less) simp_all
    also have "\<dots> = 2 powi (?d + 1)"
      by (simp add: power_int_diff [symmetric] algebra_simps)
    finally show ?thesis using x by simp
  qed
  have low: "2 powi (?d - 1) < x"
  proof -
    have "(2::rat) powi (bitlen p - 1) \<le> of_int p" using p by (rule bitlen_powi)
    moreover have "of_int q < (2::rat) powi bitlen q" using q by (rule bitlen_powi)
    moreover have "(0::rat) < 2 powi (bitlen p - 1)" by simp
    ultimately have "(2::rat) powi (bitlen p - 1) / 2 powi bitlen q < of_int p / of_int q"
      using qpos by (intro frac_less2) simp_all
    moreover have "(2::rat) powi (bitlen p - 1) / 2 powi bitlen q = 2 powi (?d - 1)"
      by (simp add: power_int_diff [symmetric] algebra_simps)
    ultimately show ?thesis using x by simp
  qed
  have e: "exponent x = (if 2 powi ?d \<le> x then ?d else ?d - 1)"
    by (simp add: exponent_def pq Let_def)
  show "2 powi exponent x \<le> x"
    using e low by (auto simp: less_imp_le)
  show "x < 2 powi (exponent x + 1)"
    using e up by (auto simp: not_le)
qed


lemma round_even_error: "\<bar>of_int (round_even x) - x\<bar> \<le> 1 / 2"
proof -
  have "of_int \<lfloor>x\<rfloor> \<le> x" and "x < of_int \<lfloor>x\<rfloor> + 1" by linarith+
  then show ?thesis by (auto simp: round_even_def Let_def)
qed

lemma round_even_of_int: "round_even (of_int k) = k"
  by (simp add: round_even_def Let_def)

lemma powi2_less_imp: "(2::rat) powi m < 2 powi n \<Longrightarrow> m < n"
proof (rule ccontr)
  assume a: "(2::rat) powi m < 2 powi n" and "\<not> m < n"
  then have "n \<le> m" by simp
  then have "(2::rat) powi n \<le> 2 powi m" by (intro power_int_increasing) simp_all
  with a show False by simp
qed

lemma exponent_less:
  assumes "0 < x" and "x < 2 powi k"
  shows "exponent x < k"
proof -
  have "(2::rat) powi exponent x < 2 powi k"
    using exponent_bounds(1) [OF assms(1)] assms(2) by (rule le_less_trans)
  then show ?thesis by (rule powi2_less_imp)
qed

lemma exponent_ge:
  assumes "0 < x" and "2 powi k \<le> x"
  shows "k \<le> exponent x"
proof -
  have "(2::rat) powi k < 2 powi (exponent x + 1)"
    using assms(2) exponent_bounds(2) [OF assms(1)] by (rule le_less_trans)
  then have "k < exponent x + 1" by (rule powi2_less_imp)
  then show ?thesis by simp
qed

lemma powi2_split: "(2::rat) powi (a + b) = 2 powi a * 2 powi b"
  by (simp add: power_int_add)

lemma exponent_unique:
  assumes "2 powi e \<le> x" and "x < 2 powi (e + 1)"
  shows "exponent x = e"
proof -
  have pos: "0 < x" using assms(1) by (rule less_le_trans [rotated]) simp
  have "e \<le> exponent x" using pos assms(1) by (rule exponent_ge)
  moreover have "exponent x < e + 1" using pos assms(2) by (rule exponent_less)
  ultimately show ?thesis by simp
qed

text \<open>Rounding in the normal range.\<close>

lemma fl_normal_value:
  assumes lo: "2 powi (- 1022) \<le> x" and hi: "x < 2 powi 1023"
  shows "fl x = Fin (of_int (round_even (x / 2 powi (exponent x - 52))) * 2 powi (exponent x - 52))"
    and "\<bar>of_int (round_even (x / 2 powi (exponent x - 52))) * 2 powi (exponent x - 52) - x\<bar>
           \<le> 2 powi (exponent x - 53)"
    and "0 < of_int (round_even (x / 2 powi (exponent x - 52))) * (2::rat) powi (exponent x - 52)"
proof -
  have pos: "0 < x" using lo by (rule less_le_trans [rotated]) simp
  let ?e = "exponent x"
  let ?q = "(2::rat) powi (?e - 52)"
  let ?m = "round_even (x / ?q)"
  let ?y = "of_int ?m * ?q"
  have e_lo: "- 1022 \<le> ?e" using pos lo by (rule exponent_ge)
  have e_hi: "?e < 1023" using pos hi by (rule exponent_less)
  have q: "0 < ?q" by simp
  have err: "\<bar>of_int ?m - x / ?q\<bar> \<le> 1 / 2" by (rule round_even_error)
  have "\<bar>?y - x\<bar> = \<bar>of_int ?m - x / ?q\<bar> * ?q"
  proof -
    have "?y - x = (of_int ?m - x / ?q) * ?q" using q by (simp add: algebra_simps)
    then show ?thesis using q by (simp add: abs_mult)
  qed
  also have "\<dots> \<le> (1 / 2) * ?q" using err q by (intro mult_right_mono) simp_all
  also have "\<dots> = 2 powi (?e - 53)"
  proof -
    have "(2::rat) powi (?e - 52) = 2 powi ((?e - 53) + 1)" by simp
    also have "\<dots> = 2 powi (?e - 53) * 2" by (simp only: powi2_split) simp
    finally show ?thesis by simp
  qed
  finally show bound: "\<bar>?y - x\<bar> \<le> 2 powi (?e - 53)" .
  have scaled_lo: "2 ^ 52 \<le> x / ?q"
  proof -
    have "?e = 52 + (?e - 52)" by simp
    then have "(2::rat) powi ?e = 2 powi (52 + (?e - 52))" by (simp only:)
    also have "\<dots> = 2 ^ 52 * ?q" by (simp only: powi2_split) simp
    finally have "2 ^ 52 * ?q \<le> x" using exponent_bounds(1) [OF pos] by simp
    then show ?thesis using q by (simp add: pos_le_divide_eq)
  qed
  have scaled_hi: "x / ?q < 2 ^ 53"
  proof -
    have "?e + 1 = 53 + (?e - 52)" by simp
    then have "(2::rat) powi (?e + 1) = 2 powi (53 + (?e - 52))" by (simp only:)
    also have "\<dots> = 2 ^ 53 * ?q" by (simp only: powi2_split) simp
    finally have "x < 2 ^ 53 * ?q" using exponent_bounds(2) [OF pos] by simp
    then show ?thesis using q by (simp add: pos_divide_less_eq)
  qed
  have m_lo: "2 ^ 52 \<le> ?m"
  proof -
    have "(2::rat) ^ 52 - 1 / 2 \<le> of_int ?m" using err scaled_lo by linarith
    then have "of_int (2 ^ 52 - 1) < (of_int ?m :: rat)" by simp
    then have "2 ^ 52 - 1 < ?m" by (simp only: of_int_less_iff)
    then show ?thesis by simp
  qed
  have m_hi: "?m \<le> 2 ^ 53"
  proof -
    have "(of_int ?m :: rat) < 2 ^ 53 + 1 / 2" using err scaled_hi by linarith
    then have "(of_int ?m :: rat) < of_int (2 ^ 53 + 1)" by simp
    then have "?m < 2 ^ 53 + 1" by (simp only: of_int_less_iff)
    then show ?thesis by simp
  qed
  show y_pos: "0 < ?y" using m_lo q by (intro mult_pos_pos) simp_all
  have y_hi: "?y < 2 powi 1024"
  proof -
    have "(of_int ?m :: rat) \<le> of_int (2 ^ 53)" using m_hi by (simp only: of_int_le_iff)
    then have "?y \<le> 2 ^ 53 * ?q" using q by (intro mult_right_mono) simp_all
    also have "2 ^ 53 * ?q = 2 powi (53 + (?e - 52))" by (simp only: powi2_split) simp
    also have "\<dots> = 2 powi (?e + 1)" by (simp add: add.commute)
    also have "\<dots> < 2 powi 1024" using e_hi by (intro power_int_strict_increasing) simp_all
    finally show ?thesis .
  qed
  have ny: "\<not> 2 powi 1024 \<le> ?y" using y_hi by (simp only: not_le)
  have yne: "?y \<noteq> 0" using y_pos by (rule less_imp_neq [symmetric])
  show "fl x = Fin ?y"
    using pos e_lo ny yne by (simp add: fl_def Let_def max_def del: power_int_numeral)
qed

lemma fl_normal:
  assumes lo: "2 powi (- 1022) \<le> x" and hi: "x < 2 powi 1023"
  shows "\<exists>y. fl x = Fin y \<and> \<bar>y - x\<bar> \<le> 2 powi (exponent x - 53) \<and> 0 < y"
  using fl_normal_value [OF assms] by blast

text \<open>Rounding a value whose exponent is known.\<close>

lemma fl_at:
  assumes "2 powi e \<le> x" and "x < 2 powi (e + 1)" and "- 1022 \<le> e" and "e < 1023"
  shows "fl x = Fin (of_int (round_even (x / 2 powi (e - 52))) * 2 powi (e - 52))"
proof -
  have e: "exponent x = e" using assms(1,2) by (rule exponent_unique)
  have "(2::rat) powi (- 1022) \<le> 2 powi e" using assms(3) by (intro power_int_increasing) simp_all
  then have lo: "2 powi (- 1022) \<le> x" using assms(1) by (rule order_trans)
  have "(2::rat) powi (e + 1) \<le> 2 powi 1023" using assms(4) by (intro power_int_increasing) simp_all
  with assms(2) have hi: "x < 2 powi 1023" by (rule less_le_trans)
  show ?thesis using fl_normal_value(1) [OF lo hi] by (simp only: e)
qed

text \<open>A value that fits the grid is not changed.\<close>

lemma fl_exact:
  assumes pos: "0 < x" and hi: "x < 2 powi 1024"
    and grid: "x / 2 powi (max (exponent x) (- 1022) - 52) = of_int k"
  shows "fl x = Fin x"
proof -
  let ?q = "(2::rat) powi (max (exponent x) (- 1022) - 52)"
  have q: "0 < ?q" by simp
  have "of_int (round_even (x / ?q)) * ?q = of_int k * ?q"
    by (simp only: grid round_even_of_int)
  also have "\<dots> = x" using grid q by (simp add: field_simps)
  finally have y: "of_int (round_even (x / ?q)) * ?q = x" .
  have ny: "\<not> 2 powi 1024 \<le> x" using hi by (simp only: not_le)
  have xne: "x \<noteq> 0" using pos by simp
  have a: "\<bar>x\<bar> = x" using pos by simp
  show ?thesis
    unfolding fl_def Let_def a y using ny xne pos by (simp del: power_int_numeral)
qed

lemma fl_dyadic:
  assumes n: "0 < n" and n53: "n < 2 ^ 53" and s: "s \<le> 1074"
  shows "fl (of_int n / 2 ^ s) = Fin (of_int n / 2 ^ s)"
proof -
  let ?x = "of_int n / 2 ^ s :: rat"
  have pos: "0 < ?x" using n by simp
  have lt: "?x < 2 powi (53 - int s)"
  proof -
    have "(of_int n :: rat) < of_int (2 ^ 53)" using n53 by (simp only: of_int_less_iff)
    then have "?x < 2 ^ 53 / 2 ^ s" by (simp add: divide_strict_right_mono)
    also have "\<dots> = 2 powi (53 - int s)" by (simp add: power_int_diff)
    finally show ?thesis .
  qed
  have e: "exponent ?x < 53 - int s" using pos lt by (rule exponent_less)
  let ?e = "max (exponent ?x) (- 1022)"
  have t: "0 \<le> 52 - ?e - int s" using e s by simp
  have hi: "?x < 2 powi 1024"
  proof -
    have "(2::rat) powi (53 - int s) \<le> 2 powi 1024" by (intro power_int_increasing) simp_all
    with lt show ?thesis by (rule less_le_trans)
  qed
  have "?x / 2 powi (?e - 52) = of_int n * 2 powi (52 - ?e - int s)"
  proof -
    have "(2::rat) powi (52 - ?e - int s) = 2 powi (- (?e - 52) + - int s)" by (simp add: algebra_simps)
    also have "\<dots> = 2 powi (- (?e - 52)) * 2 powi (- int s)" by (simp only: powi2_split)
    also have "\<dots> = (1 / 2 powi (?e - 52)) * (1 / 2 ^ s)"
      by (simp only: power_int_minus_divide power_int_of_nat)
    finally show ?thesis by simp
  qed
  also have "\<dots> = of_int n * 2 ^ nat (52 - ?e - int s)"
    using t by (simp only: power_int_nonneg_exp)
  also have "\<dots> = of_int (n * 2 ^ nat (52 - ?e - int s))" by simp
  finally have grid: "?x / 2 powi (?e - 52) = of_int (n * 2 ^ nat (52 - ?e - int s))" .
  show ?thesis using pos hi grid by (rule fl_exact)
qed

lemma fl_int:
  assumes "0 < n" and "n < 2 ^ 53"
  shows "fl (of_int n) = Fin (of_int n)"
  using fl_dyadic [OF assms, of 0] by simp

lemma fl_half:
  assumes "0 < n" and "n < 2 ^ 53"
  shows "fl (of_int n / 2) = Fin (of_int n / 2)"
  using fl_dyadic [OF assms, of 1] by simp

text \<open>The relative error of rounding in the normal range.\<close>

lemma fl_relative:
  assumes lo: "2 powi (- 1022) \<le> x" and hi: "x < 2 powi 1023"
  shows "\<exists>y. fl x = Fin y \<and> \<bar>y - x\<bar> \<le> x / 2 ^ 53 \<and> 0 < y"
proof -
  have pos: "0 < x" using lo by (rule less_le_trans [rotated]) simp
  obtain y where y: "fl x = Fin y" "\<bar>y - x\<bar> \<le> 2 powi (exponent x - 53)" "0 < y"
    using fl_normal [OF lo hi] by blast
  have "(2::rat) powi (exponent x - 53) = 2 powi (exponent x + - 53)" by simp
  also have "\<dots> = 2 powi exponent x * 2 powi (- 53)" by (simp only: powi2_split)
  also have "\<dots> = 2 powi exponent x / 2 ^ 53" by (simp add: power_int_minus_divide)
  also have "\<dots> \<le> x / 2 ^ 53"
    using exponent_bounds(1) [OF pos] by (simp add: divide_right_mono)
  finally have "\<bar>y - x\<bar> \<le> x / 2 ^ 53" using y(2) by simp
  then show ?thesis using y(1,3) by blast
qed

lemma toNumber_exact:
  assumes "0 \<le> i" and "i < 2 ^ 53"
  shows "toNumber i = Fin (of_int i)"
proof (cases "i = 0")
  case True
  then show ?thesis by (simp add: toNumber_def fl_def)
next
  case False
  then have "0 < i" using assms(1) by simp
  then show ?thesis unfolding toNumber_def using assms(2) by (rule fl_int)
qed

text \<open>Rounding a quotient that is at most 100 does not move it across a half.\<close>

lemma fl_quotient_round:
  assumes a: "0 < a" and t: "0 < t" and t46: "t < 2 ^ 46" and le: "a \<le> 100 * t"
  shows "\<exists>y. fl (of_int a / of_int t) = Fin y \<and> 0 < y
           \<and> \<lfloor>y + 1 / 2\<rfloor> = \<lfloor>of_int a / of_int t + 1 / 2 :: rat\<rfloor>"
proof -
  let ?x = "of_int a / of_int t :: rat"
  let ?k = "\<lfloor>?x + 1 / 2\<rfloor>"
  have tpos: "(0::rat) < of_int t" using t by simp
  have xpos: "0 < ?x" using a t by simp
  have x100: "?x \<le> 100"
  proof -
    have "(of_int a :: rat) \<le> of_int (100 * t)" using le by (simp only: of_int_le_iff)
    then show ?thesis using tpos by (simp add: pos_divide_le_eq)
  qed
  have t_lt: "(of_int t :: rat) < 2 ^ 46"
  proof -
    have "(of_int t :: rat) < of_int (2 ^ 46)" using t46 by (simp only: of_int_less_iff)
    then show ?thesis by simp
  qed
  have gap: "1 / 2 ^ 47 < 1 / (2 * of_int t :: rat)"
    using tpos t_lt by (simp add: field_simps)
  have lo: "2 powi (- 1022) \<le> ?x"
  proof -
    have "(1::rat) \<le> of_int a" using a by simp
    then have "1 / of_int t \<le> ?x" using tpos by (simp add: divide_right_mono)
    moreover have "1 / 2 ^ 46 \<le> 1 / (of_int t :: rat)"
      using tpos t_lt by (simp add: field_simps)
    moreover have "(2::rat) powi (- 1022) \<le> 2 powi (- 46)"
      by (intro power_int_increasing) simp_all
    moreover have "(2::rat) powi (- 46) = 1 / 2 ^ 46" by (simp add: power_int_minus_divide)
    ultimately show ?thesis by linarith
  qed
  have hi7: "?x < 2 powi 7" using x100 by simp
  have hi: "?x < 2 powi 1023"
  proof -
    have "(2::rat) powi 7 \<le> 2 powi 1023" by (intro power_int_increasing) simp_all
    with hi7 show ?thesis by (rule less_le_trans)
  qed
  obtain y where y: "fl ?x = Fin y" "\<bar>y - ?x\<bar> \<le> 2 powi (exponent ?x - 53)" "0 < y"
    using fl_normal [OF lo hi] by blast
  have e: "exponent ?x < 7" using xpos hi7 by (rule exponent_less)
  have "(2::rat) powi (exponent ?x - 53) \<le> 2 powi (- 47)"
    using e by (intro power_int_increasing) simp_all
  moreover have "(2::rat) powi (- 47) = 1 / 2 ^ 47" by (simp add: power_int_minus_divide)
  ultimately have err: "\<bar>y - ?x\<bar> \<le> 1 / 2 ^ 47" using y(2) by linarith
  have k_le: "of_int ?k \<le> ?x + 1 / 2" and k_gt: "?x + 1 / 2 < of_int ?k + 1"
    by linarith+
  have upper: "y + 1 / 2 < of_int ?k + 1"
  proof -
    let ?N = "(2 * ?k + 1) * t - 2 * a"
    have eq: "of_int ?k + 1 / 2 - ?x = of_int ?N / (2 * of_int t)"
      using tpos by (simp add: field_simps)
    have "0 < of_int ?k + 1 / 2 - ?x" using k_gt by linarith
    then have "(0::rat) < of_int ?N" using eq tpos by (simp add: zero_less_divide_iff)
    then have "0 < ?N" by (simp only: of_int_0_less_iff)
    then have "1 \<le> ?N" by simp
    then have "(1::rat) \<le> of_int ?N" by (simp only: of_int_1_le_iff)
    then have "1 / (2 * of_int t) \<le> of_int ?N / (2 * of_int t :: rat)"
      using tpos by (simp add: divide_right_mono)
    then have "1 / 2 ^ 47 < of_int ?k + 1 / 2 - ?x" using gap eq by linarith
    then show ?thesis using err by linarith
  qed
  have lower: "of_int ?k \<le> y + 1 / 2"
  proof -
    let ?M = "2 * a + t - 2 * ?k * t"
    have eq: "?x + 1 / 2 - of_int ?k = of_int ?M / (2 * of_int t)"
      using tpos by (simp add: field_simps)
    have "0 \<le> ?x + 1 / 2 - of_int ?k" using k_le by linarith
    then have "(0::rat) \<le> of_int ?M" using eq tpos by (simp add: zero_le_divide_iff)
    then have M: "0 \<le> ?M" by (simp only: of_int_0_le_iff)
    show ?thesis
    proof (cases "?M = 0")
      case True
      obtain j where j: "j = 2 * ?k - 1" by simp
      have half: "?x = of_int j / 2" using True eq j by (simp add: field_simps)
      have "(0::rat) < of_int j" using xpos half by linarith
      then have j0: "0 < j" by (simp only: of_int_0_less_iff)
      have "(of_int j :: rat) \<le> 200" using x100 half by linarith
      then have "(of_int j :: rat) \<le> of_int 200" by simp
      then have "j \<le> 200" by (simp only: of_int_le_iff)
      then have j53: "j < 2 ^ 53" by simp
      have "fl (of_int j / 2) = Fin (of_int j / 2)" using j0 j53 by (rule fl_half)
      then have "y = ?x" using y(1) half by simp
      then show ?thesis using k_le by simp
    next
      case False
      then have "1 \<le> ?M" using M by simp
      then have "(1::rat) \<le> of_int ?M" by (simp only: of_int_1_le_iff)
      then have "1 / (2 * of_int t) \<le> of_int ?M / (2 * of_int t :: rat)"
        using tpos by (simp add: divide_right_mono)
      then have "1 / 2 ^ 47 < ?x + 1 / 2 - of_int ?k" using gap eq by linarith
      then show ?thesis using err by linarith
    qed
  qed
  have "\<lfloor>y + 1 / 2\<rfloor> = ?k" using lower upper by (rule floor_unique)
  then show ?thesis using y(1,3) by blast
qed


subsection \<open>Polling\<close>

lemma effects_same [simp]: "effects s s = (s, [])"
  by (simp add: effects_def)

lemma polling_example_state:
  "polling_example =
     \<lparr>file_state = None, status = ''processing'', jobId = Some ''j1'', progress = ''waiting'',
      clips = Some [], error = None, uploads = [], apiKey = ''key'',
      interval = Some (''j1'', 2000)\<rparr>"
  by (simp add: polling_example_def processSettled_def startProcessingExisting_def
      initial_def effects_def)

lemma tick_rejected:
  "interval s = Some (jid, ms) \<Longrightarrow> tick (Rejected err) s = (s, [GetJob jid])"
  by (simp add: tick_def pollCallback_def)

lemma ticks_rejected:
  "interval s = Some (jid, ms) \<Longrightarrow>
   ticks (map Rejected errs) s = (s, map (\<lambda>_. GetJob jid) errs)"
  by (induction errs) (simp_all add: tick_rejected)

lemma ticks_cleared: "interval s = None \<Longrightarrow> ticks rs s = (s, [])"
  by (induction rs) (simp_all add: tick_def)

lemma tick_resolved:
  "interval s = Some (jid, ms) \<Longrightarrow>
   tick (Resolved j) s =
     (if job_status j = ''done''
      then (s\<lparr>progress := ''done'', clips := job_clips j, status := ''done'', interval := None\<rparr>,
            GetJob jid # (if status s = ''done'' then [] else [GetUploads]))
      else if job_status j = ''failed''
      then (s\<lparr>progress := ''failed'', error := Some (orElse (job_error j) ''Job failed''),
               status := ''error'', interval := None\<rparr>,
            GetJob jid # (if status s = ''error'' then [] else [GetUploads]))
      else (s\<lparr>progress := job_status j\<rparr>, [GetJob jid]))"
  by (simp add: tick_def pollCallback_def effects_def Let_def)

text \<open>
  Claim C7: while the timer exists, any number of failed poll attempts leaves the whole
  state as it was (status, progress, clips and error with it); each attempt only sends
  its request. The timer keeps its job and its period, and the next reply is handled as
  if no attempt had failed.
\<close>

theorem poll_failure_keeps_state:
  assumes "interval s = Some (jid, ms)"
  shows "ticks (map Rejected errs) s = (s, map (\<lambda>_. GetJob jid) errs)
       \<and> interval (fst (ticks (map Rejected errs) s)) = Some (jid, ms)
       \<and> tick r (fst (ticks (map Rejected errs) s)) = tick r s"
  using assms by (simp add: ticks_rejected)

theorem poll_failure_keeps_state_witness:
  "ticks (map Rejected [''Network Error'', ''timeout of 0ms exceeded'']) polling_example
     = (polling_example, [GetJob ''j1'', GetJob ''j1''])
   \<and> interval polling_example = Some (''j1'', 2000)"
  using poll_failure_keeps_state
    [of polling_example "''j1''" 2000 "[''Network Error'', ''timeout of 0ms exceeded'']"]
  by (simp add: polling_example_state)

lemma terminal_reply_clears_timer:
  assumes "interval s = Some (jid, ms)"
    and "job_status j = ''done'' \<or> job_status j = ''failed''"
  shows "interval (fst (tick (Resolved j) s)) = None"
    and "status (fst (tick (Resolved j) s)) = (if job_status j = ''done'' then ''done'' else ''error'')"
  using assms by (auto simp: tick_resolved)

lemma finished_example_state:
  "finished_example =
     \<lparr>file_state = None, status = ''done'', jobId = Some ''j1'', progress = ''done'',
      clips = Some [\<lparr>path = ''clips/talk_1.mp4'', title = None, score = Some 90,
                     transcript_text = None\<rparr>],
      error = None, uploads = [], apiKey = ''key'', interval = None\<rparr>"
  by (simp add: finished_example_def polling_example_state tick_def pollCallback_def effects_def)

lemma rerun_example_state:
  "rerun_example =
     \<lparr>file_state = None, status = ''processing'', jobId = Some ''j1'', progress = ''done'',
      clips = Some [], error = None, uploads = [], apiKey = ''key'',
      interval = Some (''j1'', 2000)\<rparr>"
  by (simp add: rerun_example_def finished_example_state clickGenerate_def clickProcessNew_def
      startProcessingExisting_def effects_def)

text \<open>
  Claim C2 says that once a poll reports \<^verbatim>\<open>done\<close> or \<^verbatim>\<open>failed\<close> the client stops
  polling and does not observe that job again. The reply does clear the timer, but the
  component keeps the identifier of the finished job: \<^verbatim>\<open>Process New Video\<close> and
  \<^verbatim>\<open>Try Again\<close> reset the file, the clips and the error, not \<^verbatim>\<open>jobId\<close>. When the
  user then starts another run, the status becomes \<^verbatim>\<open>processing\<close> before the new
  identifier has arrived, so the effect creates a timer for the finished job: the job is
  polled again, and its reply ends the new run with the finished job's clips.
\<close>

theorem finished_job_polled_again:
  "interval finished_example = None
   \<and> status rerun_example = ''processing''
   \<and> interval rerun_example = Some (''j1'', 2000)
   \<and> snd (tick (Resolved \<lparr>job_status = ''done'',
                   job_clips = Some [\<lparr>path = ''clips/talk_1.mp4'', title = None, score = Some 90,
                                      transcript_text = None\<rparr>],
                   job_error = None\<rparr>) rerun_example) = [GetJob ''j1'', GetUploads]
   \<and> render (fst (tick (Resolved \<lparr>job_status = ''done'',
                   job_clips = Some [\<lparr>path = ''clips/talk_1.mp4'', title = None, score = Some 90,
                                      transcript_text = None\<rparr>],
                   job_error = None\<rparr>) rerun_example))
       = DoneScreen [\<lparr>card_video = ''clips/talk_1.mp4'', card_title = ''Clip 1'',
                      card_badge = Some (Emerald, 90), card_transcript = None\<rparr>]"
proof -
  have s1: "show_nat (Suc 0) = ''1''" by code_simp
  show ?thesis
    by (simp add: finished_example_state rerun_example_state tick_def pollCallback_def
        effects_def render_def gallery_def array_sort_def clipCard_def orElse_def
        scoreBadge_def scoreClass_def s1)
qed


text \<open>
  Claim C3: a poll asks for the job by its identifier; the status string of the reply
  becomes the progress string, and while the job is neither done nor failed the
  processing screen shows it; the clip list is taken from the reply exactly when the
  status is \<^verbatim>\<open>done\<close>, and an error message exactly when it is \<^verbatim>\<open>failed\<close>: the
  reply's error, or \<^verbatim>\<open>Job failed\<close> when that is missing (or empty).
\<close>

theorem poll_reply_taken:
  assumes "interval s = Some (jid, ms)"
  shows "hd (snd (tick (Resolved j) s)) = GetJob jid
       \<and> progress (fst (tick (Resolved j) s)) = job_status j
       \<and> clips (fst (tick (Resolved j) s)) = (if job_status j = ''done'' then job_clips j else clips s)
       \<and> error (fst (tick (Resolved j) s)) =
           (if job_status j = ''failed''
            then Some (case job_error j of None \<Rightarrow> ''Job failed''
                        | Some e \<Rightarrow> if e = [] then ''Job failed'' else e)
            else error s)
       \<and> (status s = ''processing'' \<and> job_status j \<noteq> ''done'' \<and> job_status j \<noteq> ''failed'' \<longrightarrow>
            render (fst (tick (Resolved j) s))
              = WorkingScreen ''Processing...'' (progressBadge (job_status j))
                  (progressPanel (job_status j)))"
  using assms by (auto simp: tick_resolved orElse_def render_def split: option.splits)

theorem poll_reply_taken_witness:
  "error (fst (tick (Resolved \<lparr>job_status = ''failed'', job_clips = None, job_error = None\<rparr>)
      polling_example)) = Some ''Job failed''
   \<and> clips (fst (tick (Resolved \<lparr>job_status = ''failed'', job_clips = None, job_error = None\<rparr>)
      polling_example)) = Some []
   \<and> progress (fst (tick (Resolved \<lparr>job_status = ''failed'', job_clips = None, job_error = None\<rparr>)
      polling_example)) = ''failed''
   \<and> render (fst (tick (Resolved \<lparr>job_status = ''analyzing'', job_clips = None, job_error = None\<rparr>)
      polling_example))
       = WorkingScreen ''Processing...'' (progressBadge ''analyzing'') (progressPanel ''analyzing'')"
  using poll_reply_taken
    [of polling_example "''j1''" 2000
      "\<lparr>job_status = ''failed'', job_clips = None, job_error = None\<rparr>"]
    poll_reply_taken
    [of polling_example "''j1''" 2000
      "\<lparr>job_status = ''analyzing'', job_clips = None, job_error = None\<rparr>"]
  by (simp add: polling_example_state)

subsection \<open>The gallery\<close>

lemma mset_insertSorted: "mset (insertSorted cmp x ys) = add_mset x (mset ys)"
  by (induction ys) simp_all

lemma mset_array_sort: "mset (array_sort cmp xs) = mset xs"
  by (induction xs) (simp_all add: array_sort_def mset_insertSorted)

lemma set_insertSorted: "set (insertSorted cmp x ys) = insert x (set ys)"
  using mset_insertSorted [of cmp x ys] by (metis set_mset_add_mset_insert set_mset_mset)

lemma ordered_insertSorted:
  "sorted_wrt (\<lambda>a b. scoreOrZero b \<le> scoreOrZero a) ys \<Longrightarrow>
   sorted_wrt (\<lambda>a b. scoreOrZero b \<le> scoreOrZero a) (insertSorted compareScore x ys)"
proof (induction ys)
  case Nil
  then show ?case by simp
next
  case (Cons y ys)
  show ?case
  proof (cases "compareScore x y \<le> 0")
    case True
    then have "scoreOrZero y \<le> scoreOrZero x" by (simp add: compareScore_def)
    moreover have "\<forall>z\<in>set ys. scoreOrZero z \<le> scoreOrZero y" using Cons.prems by simp
    ultimately show ?thesis using True Cons.prems by fastforce
  next
    case False
    then have "scoreOrZero x \<le> scoreOrZero y" by (simp add: compareScore_def)
    then show ?thesis using False Cons by (auto simp: set_insertSorted)
  qed
qed

lemma ordered_array_sort:
  "sorted_wrt (\<lambda>a b. scoreOrZero b \<le> scoreOrZero a) (array_sort compareScore xs)"
proof (induction xs)
  case Nil
  then show ?case by (simp add: array_sort_def)
next
  case (Cons x xs)
  then show ?case using ordered_insertSorted [of "array_sort compareScore xs" x]
    by (simp add: array_sort_def)
qed

lemma displayedClips_eq:
  "arrays h a = Some cs \<Longrightarrow>
   displayedClips a h =
     Some (next_ref h,
       h\<lparr>arrays := (arrays h)(next_ref h \<mapsto> array_sort compareScore cs),
         next_ref := Suc (next_ref h)\<rparr>)"
  by (simp add: displayedClips_def spread_def sort_in_place_def)

lemma map_snd_enumerate: "map (\<lambda>x. f (snd x)) (enumerate n xs) = map f xs"
  by (induction xs arbitrary: n) simp_all

lemma gallery_videos: "map card_video (gallery cs) = map path (array_sort compareScore cs)"
  by (simp add: gallery_def clipCard_def case_prod_beta comp_def map_snd_enumerate)

text \<open>
  Claim C5: let the state's clip list be the array at reference \<open>a\<close>, and let the next
  reference be unused. The gallery expression yields a new array \<open>ds\<close> that is a
  permutation of the clip list in order of non-increasing score, a missing score counting
  as 0; the cards are shown in that order; the array at \<open>a\<close> and every other array of
  the store are as before.
\<close>

theorem gallery_order:
  assumes "arrays h a = Some cs" and "next_ref h \<notin> dom (arrays h)"
  shows "\<exists>r h' ds. displayedClips a h = Some (r, h')
           \<and> arrays h' r = Some ds
           \<and> mset ds = mset cs
           \<and> sorted_wrt (\<lambda>x y. scoreOrZero x \<ge> scoreOrZero y) ds
           \<and> map card_video (gallery cs) = map path ds
           \<and> arrays h' a = Some cs
           \<and> (\<forall>b\<in>dom (arrays h). arrays h' b = arrays h b)"
proof -
  let ?r = "next_ref h"
  let ?ds = "array_sort compareScore cs"
  let ?h' = "h\<lparr>arrays := (arrays h)(?r \<mapsto> ?ds), next_ref := Suc ?r\<rparr>"
  have neq: "?r \<noteq> a" using assms by auto
  have "displayedClips a h = Some (?r, ?h')" using assms(1) by (rule displayedClips_eq)
  moreover have "arrays ?h' ?r = Some ?ds" by simp
  moreover have "mset ?ds = mset cs" by (rule mset_array_sort)
  moreover have "sorted_wrt (\<lambda>x y. scoreOrZero x \<ge> scoreOrZero y) ?ds"
    by (rule ordered_array_sort)
  moreover have "map card_video (gallery cs) = map path ?ds" by (rule gallery_videos)
  moreover have "arrays ?h' a = Some cs" using assms(1) neq by simp
  moreover have "\<forall>b\<in>dom (arrays h). arrays ?h' b = arrays h b" using assms(2) by auto
  ultimately show ?thesis by blast
qed

theorem gallery_order_witness:
  "\<exists>r h' ds.
     displayedClips 0
       \<lparr>arrays = [0 \<mapsto> [\<lparr>path = ''a.mp4'', title = None, score = None, transcript_text = None\<rparr>,
                        \<lparr>path = ''b.mp4'', title = None, score = Some 90, transcript_text = None\<rparr>]],
        next_ref = 1\<rparr> = Some (r, h')
     \<and> arrays h' r = Some ds
     \<and> map path ds = [''b.mp4'', ''a.mp4'']
     \<and> arrays h' 0 = Some [\<lparr>path = ''a.mp4'', title = None, score = None, transcript_text = None\<rparr>,
                        \<lparr>path = ''b.mp4'', title = None, score = Some 90, transcript_text = None\<rparr>]"
  using gallery_order
    [of "\<lparr>arrays = [0 \<mapsto> [\<lparr>path = ''a.mp4'', title = None, score = None, transcript_text = None\<rparr>,
                        \<lparr>path = ''b.mp4'', title = None, score = Some 90, transcript_text = None\<rparr>]],
        next_ref = 1\<rparr>" 0
        "[\<lparr>path = ''a.mp4'', title = None, score = None, transcript_text = None\<rparr>,
          \<lparr>path = ''b.mp4'', title = None, score = Some 90, transcript_text = None\<rparr>]"]
  by (simp add: displayedClips_def spread_def sort_in_place_def array_sort_def
      compareScore_def scoreOrZero_def)

subsection \<open>Scores\<close>

text \<open>
  Every present score gets the badge of exactly one class, by the thresholds 80 and 60;
  the component takes any score as it is given.
\<close>

lemma scoreClass_cases:
  "(scoreClass x = Emerald \<longleftrightarrow> 80 \<le> x)
   \<and> (scoreClass x = Yellow \<longleftrightarrow> 60 \<le> x \<and> x < 80)
   \<and> (scoreClass x = Slate \<longleftrightarrow> x < 60)"
  by (auto simp: scoreClass_def)

lemma scoreBadge_present: "score c = Some x \<Longrightarrow> scoreBadge c = Some (scoreClass x, x)"
  by (simp add: scoreBadge_def)

subsection \<open>The uploads list\<close>

text \<open>
  Claim C6, as the code has it. The uploads list is shown while the status is
  \<^verbatim>\<open>idle\<close>. Viewing an upload's clips sends no upload and no process request and
  starts no job or timer; because the status changes, the first effect sends the one
  request that refreshes the uploads list. Asking for (re)generation posts the process
  request with the upload's stored path, followed by the same refresh, and the reply to
  it causes at most another refresh. No request posts a file.
\<close>

theorem view_and_regenerate:
  assumes "status s = ''idle''"
  shows "snd (clickView u s) = [GetUploads]
       \<and> clips (fst (clickView u s)) = upload_clips u
       \<and> jobId (fst (clickView u s)) = jobId s
       \<and> interval (fst (clickView u s)) = None
       \<and> snd (clickGenerate u s) = [PostProcess (upload_path u) (apiKey s), GetUploads]
       \<and> (\<forall>r. set (snd (processSettled r (fst (clickGenerate u s)))) \<subseteq> {GetUploads})"
  using assms
  by (auto simp: clickView_def clickGenerate_def startProcessingExisting_def processSettled_def
       effects_def split: reply.splits if_splits)

theorem view_and_regenerate_witness:
  "snd (clickView
      \<lparr>upload_path = ''uploads/talk.mp4'', filename = ''talk.mp4'', thumbnail = None,
       has_transcript = True, upload_clips = Some []\<rparr> (initial ''key'')) = [GetUploads]
   \<and> snd (clickGenerate
      \<lparr>upload_path = ''uploads/talk.mp4'', filename = ''talk.mp4'', thumbnail = None,
       has_transcript = True, upload_clips = Some []\<rparr> (initial ''key''))
       = [PostProcess ''uploads/talk.mp4'' ''key'', GetUploads]"
  using view_and_regenerate
    [of "initial ''key''"
        "\<lparr>upload_path = ''uploads/talk.mp4'', filename = ''talk.mp4'', thumbnail = None,
          has_transcript = True, upload_clips = Some []\<rparr>"]
  by (simp add: initial_def)

text \<open>
  The claim as written fails: from the first screen, with an upload that has one clip,
  the button \<^verbatim>\<open>View 1 Clips\<close> is shown and pressing it sends a request.
\<close>

theorem view_sends_request_counterexample:
  "hasClips \<lparr>upload_path = ''uploads/talk.mp4'', filename = ''talk.mp4'', thumbnail = None,
       has_transcript = True,
       upload_clips = Some [\<lparr>path = ''c1.mp4'', title = None, score = Some 90, transcript_text = None\<rparr>]\<rparr>
   \<and> status (initial ''key'') = ''idle''
   \<and> snd (clickView
        \<lparr>upload_path = ''uploads/talk.mp4'', filename = ''talk.mp4'', thumbnail = None,
         has_transcript = True,
         upload_clips = Some [\<lparr>path = ''c1.mp4'', title = None, score = Some 90, transcript_text = None\<rparr>]\<rparr>
        (initial ''key'')) \<noteq> []"
  by (simp add: hasClips_def initial_def clickView_def effects_def)

subsection \<open>The upload percentage\<close>

lemma show_nat_0: "show_nat 0 = ''0''"
  by code_simp

lemma show_nat_100: "show_nat 100 = ''100''"
  by code_simp

lemma percentCompleted_eq:
  assumes "0 \<le> loaded ev" and "loaded ev \<le> total ev" and "0 < total ev"
    and "total ev < 2 ^ 46"
  shows "percentCompleted ev = IInt (spec_percent (loaded ev) (total ev))"
proof -
  let ?l = "loaded ev" and ?t = "total ev"
  have t: "toNumber ?t = Fin (of_int ?t)" using assms by (intro toNumber_exact) simp_all
  have l: "toNumber ?l = Fin (of_int ?l)" using assms by (intro toNumber_exact) simp_all
  show ?thesis
  proof (cases "?l = 0")
    case True
    have z: "toNumber ?l = Fin 0" using l True by simp
    have "js_mul (Fin 0) (Fin 100) = Fin 0" by (simp add: js_mul_def mk_zero_def)
    moreover have "js_div (Fin 0) (Fin (of_int ?t)) = Fin 0"
      using assms(3) by (simp add: js_div_def mk_zero_def)
    moreover have "spec_percent ?l ?t = 0" using True by (simp add: spec_percent_def)
    moreover have "\<lfloor>(0::rat) + 1 / 2\<rfloor> = 0" by (rule floor_unique) simp_all
    ultimately show ?thesis by (simp add: percentCompleted_def t z)
  next
    case False
    then have lpos: "0 < ?l" using assms(1) by simp
    have prod: "0 < ?l * 100" "?l * 100 < 2 ^ 53" "?l * 100 \<le> 100 * ?t"
      using lpos assms(2,4) by simp_all
    have mul: "js_mul (Fin (of_int ?l)) (Fin 100) = Fin (of_int (?l * 100))"
    proof -
      have "js_mul (Fin (of_int ?l)) (Fin 100) = fl (of_int (?l * 100))"
        using lpos by (simp add: js_mul_def)
      then show ?thesis using fl_int [OF prod(1,2)] by simp
    qed
    obtain y where y: "fl (of_int (?l * 100) / of_int ?t) = Fin y" "0 < y"
      "\<lfloor>y + 1 / 2\<rfloor> = \<lfloor>of_int (?l * 100) / of_int ?t + 1 / 2 :: rat\<rfloor>"
      using fl_quotient_round [OF prod(1) assms(3,4) prod(3)] by blast
    have div: "js_div (Fin (of_int (?l * 100))) (Fin (of_int ?t)) = Fin y"
    proof -
      have "js_div (Fin (of_int (?l * 100))) (Fin (of_int ?t)) = fl (of_int (?l * 100) / of_int ?t)"
        using lpos assms(3) by (simp add: js_div_def)
      then show ?thesis using y(1) by simp
    qed
    have "percentCompleted ev = IInt \<lfloor>y + 1 / 2\<rfloor>"
      using y(2) by (simp add: percentCompleted_def t l mul div del: of_int_mult)
    also have "\<lfloor>y + 1 / 2\<rfloor> = spec_percent ?l ?t"
      by (simp add: y(3) spec_percent_def round_def mult.commute)
    finally show ?thesis .
  qed
qed

lemma spec_percent_bounds:
  assumes "0 \<le> l" and "l \<le> t" and "0 < t"
  shows "0 \<le> spec_percent l t \<and> spec_percent l t \<le> 100"
proof -
  let ?q = "100 * of_int l / of_int t :: rat"
  have "0 \<le> ?q" using assms by simp
  moreover have "?q \<le> 100" using assms by (simp add: divide_le_eq)
  ultimately show ?thesis
    unfolding spec_percent_def round_def by (simp add: floor_le_iff le_floor_iff)
qed

text \<open>
  Claim C8, as the code has it: for a progress event with \<open>0 \<le> loaded \<le> total\<close> and
  \<open>0 < total < 2\<^sup>4\<^sup>6\<close> the progress string is \<^verbatim>\<open>uploading: p%\<close> with \<open>p\<close> the rounded
  percentage, which is the nearest integer, lies within 0 and 100, is 0 when nothing is
  loaded and 100 when all is. Below that size the rounding of the product and of the
  quotient to doubles cannot move the quotient across a half.
\<close>

theorem upload_progress_string:
  assumes "0 \<le> loaded ev" and "loaded ev \<le> total ev" and "0 < total ev"
    and "total ev < 2 ^ 46"
  shows "progress (onUploadProgress ev s)
           = ''uploading: '' @ show_nat (nat (spec_percent (loaded ev) (total ev))) @ ''%''
       \<and> 0 \<le> spec_percent (loaded ev) (total ev)
       \<and> spec_percent (loaded ev) (total ev) \<le> 100
       \<and> \<bar>of_int (spec_percent (loaded ev) (total ev))
            - 100 * of_int (loaded ev) / of_int (total ev) :: rat\<bar> \<le> 1 / 2
       \<and> (loaded ev = 0 \<longrightarrow> progress (onUploadProgress ev s) = ''uploading: 0%'')
       \<and> (loaded ev = total ev \<longrightarrow> progress (onUploadProgress ev s) = ''uploading: 100%'')"
proof -
  have b: "0 \<le> spec_percent (loaded ev) (total ev) \<and> spec_percent (loaded ev) (total ev) \<le> 100"
    using assms(1-3) by (rule spec_percent_bounds)
  have p: "progress (onUploadProgress ev s)
           = ''uploading: '' @ show_nat (nat (spec_percent (loaded ev) (total ev))) @ ''%''"
    using b by (simp add: onUploadProgress_def percentCompleted_eq [OF assms])
  have near: "\<bar>of_int (spec_percent (loaded ev) (total ev))
                - 100 * of_int (loaded ev) / of_int (total ev) :: rat\<bar> \<le> 1 / 2"
    unfolding spec_percent_def by (rule of_int_round_abs_le)
  have z: "spec_percent 0 (total ev) = 0" by (simp add: spec_percent_def)
  have h: "spec_percent (total ev) (total ev) = 100"
    using assms(3) by (simp add: spec_percent_def)
  show ?thesis using p b near z h by (auto simp: show_nat_0 show_nat_100)
qed

theorem upload_progress_string_witness:
  "progress (onUploadProgress \<lparr>loaded = 8, total = 8\<rparr> (initial ''key'')) = ''uploading: 100%''
   \<and> progress (onUploadProgress \<lparr>loaded = 0, total = 8\<rparr> (initial ''key'')) = ''uploading: 0%''
   \<and> spec_percent (loaded \<lparr>loaded = 8, total = 8\<rparr>) (total \<lparr>loaded = 8, total = 8\<rparr>) \<le> 100"
proof -
  have a: "0 \<le> loaded \<lparr>loaded = 8, total = 8\<rparr>" by simp
  have b: "loaded \<lparr>loaded = 8, total = 8\<rparr> \<le> total \<lparr>loaded = 8, total = 8\<rparr>" by simp
  have c: "0 < total \<lparr>loaded = 8, total = 8\<rparr>" by simp
  have d: "total \<lparr>loaded = 8, total = 8\<rparr> < 2 ^ 46" by simp
  have e: "loaded \<lparr>loaded = 8, total = 8\<rparr> = total \<lparr>loaded = 8, total = 8\<rparr>" by simp
  have a0: "0 \<le> loaded \<lparr>loaded = 0, total = 8\<rparr>" by simp
  have b0: "loaded \<lparr>loaded = 0, total = 8\<rparr> \<le> total \<lparr>loaded = 0, total = 8\<rparr>" by simp
  have c0: "0 < total \<lparr>loaded = 0, total = 8\<rparr>" by simp
  have d0: "total \<lparr>loaded = 0, total = 8\<rparr> < 2 ^ 46" by simp
  have e0: "loaded \<lparr>loaded = 0, total = 8\<rparr> = 0" by simp
  from upload_progress_string [OF a b c d, of "initial ''key''"] e
    upload_progress_string [OF a0 b0 c0 d0, of "initial ''key''"] e0
  show ?thesis by blast
qed


text \<open>
  The claim as written fails for large counts: here the product is rounded to a double,
  the quotient of the doubles is exactly 36.5, and the code shows 37 where the percentage
  rounds to 36.
\<close>

lemma fl_large_product: "fl (3062719239059653 * 100) = Fin 306271923905965312"
proof -
  have arg: "(3062719239059653 * 100 / 2 powi (58 - 52) :: rat) = 76567980976491325 / 16"
    by simp
  have r: "round_even (76567980976491325 / 16) = 4785498811030708" by code_simp
  have "fl (3062719239059653 * 100)
          = Fin (of_int (round_even (3062719239059653 * 100 / 2 powi (58 - 52))) * 2 powi (58 - 52))"
    by (rule fl_at) simp_all
  then show ?thesis by (simp only: arg r) simp
qed

lemma fl_large_quotient: "fl (306271923905965312 / 8391011613862064) = Fin (73 / 2)"
proof -
  have arg: "(306271923905965312 / 8391011613862064 / 2 powi (5 - 52) :: rat)
      = 306271923905965312 / 8391011613862064 * 2 ^ 47"
    by (simp add: power_int_minus_divide)
  have r: "round_even (306271923905965312 / 8391011613862064 * 2 ^ 47) = 5136918324969472"
    by code_simp
  have "fl (306271923905965312 / 8391011613862064)
          = Fin (of_int (round_even (306271923905965312 / 8391011613862064 / 2 powi (5 - 52)))
                  * 2 powi (5 - 52))"
    by (rule fl_at) simp_all
  then show ?thesis by (simp only: arg r) (simp add: power_int_minus_divide)
qed

lemma percentCompleted_large:
  "percentCompleted \<lparr>loaded = 3062719239059653, total = 8391011613862064\<rparr> = IInt 37"
proof -
  have l: "toNumber 3062719239059653 = Fin (of_int 3062719239059653)"
    by (rule toNumber_exact) simp_all
  have t: "toNumber 8391011613862064 = Fin (of_int 8391011613862064)"
    by (rule toNumber_exact) simp_all
  have m: "js_mul (Fin 3062719239059653) (Fin 100) = Fin 306271923905965312"
    using fl_large_product by (simp add: js_mul_def)
  have d: "js_div (Fin 306271923905965312) (Fin 8391011613862064) = Fin (73 / 2)"
    using fl_large_quotient by (simp add: js_div_def)
  have f: "\<lfloor>(73::rat) / 2 + 1 / 2\<rfloor> = 37" by simp
  show ?thesis using l t by (simp add: percentCompleted_def m d f)
qed

theorem upload_percent_counterexample:
  "percentCompleted \<lparr>loaded = 3062719239059653, total = 8391011613862064\<rparr> = IInt 37
   \<and> progress (onUploadProgress \<lparr>loaded = 3062719239059653, total = 8391011613862064\<rparr>
        (initial ''key'')) = ''uploading: 37%''
   \<and> spec_percent 3062719239059653 8391011613862064 = 36"
proof -
  have s37: "show_nat 37 = ''37''" by code_simp
  have sp: "spec_percent 3062719239059653 8391011613862064 = 36" by code_simp
  show ?thesis using sp by (simp add: onUploadProgress_def percentCompleted_large s37)
qed

subsection \<open>Digits, parsing and splitting\<close>

lemma of_char_digit_char: "d < 10 \<Longrightarrow> (of_char (digit_char d) :: nat) = 48 + d"
  by (simp add: digit_char_def)

lemma isDecimalDigit_digit_char: "d < 10 \<Longrightarrow> isDecimalDigit (digit_char d)"
  by (simp add: isDecimalDigit_def of_char_digit_char)

lemma show_nat_digits: "c \<in> set (show_nat n) \<Longrightarrow> isDecimalDigit c"
proof (induction n rule: show_nat.induct)
  case (1 n)
  show ?case
  proof (cases "n < 10")
    case True
    then show ?thesis using "1.prems" by (simp add: show_nat.simps [of n] isDecimalDigit_digit_char)
  next
    case False
    then have "c \<in> set (show_nat (n div 10)) \<or> c = digit_char (n mod 10)"
      using "1.prems" by (auto simp: show_nat.simps [of n])
    then show ?thesis using "1.IH" False by (auto simp: isDecimalDigit_digit_char)
  qed
qed

lemma show_nat_not_Nil: "show_nat n \<noteq> []"
  by (subst show_nat.simps) simp

lemma digitVal_digit_char: "d < 10 \<Longrightarrow> digitVal 10 (digit_char d) = Some d"
  by (simp add: digitVal_def of_char_digit_char Let_def)

lemma digitVal_decimal: "isDecimalDigit c \<Longrightarrow> digitVal 10 c \<noteq> None"
  by (auto simp: digitVal_def isDecimalDigit_def Let_def)

lemma digitsValue_snoc:
  "digitsValue R (Z @ [c]) = digitsValue R Z * R + the (digitVal R c)"
  by (simp add: digitsValue_def)

lemma digitsValue_show_nat: "digitsValue 10 (show_nat n) = n"
proof (induction n rule: show_nat.induct)
  case (1 n)
  show ?case
  proof (cases "n < 10")
    case True
    then show ?thesis
      by (simp add: show_nat.simps [of n] digitsValue_def digitVal_digit_char)
  next
    case False
    then have "digitsValue 10 (show_nat n)
        = digitsValue 10 (show_nat (n div 10)) * 10 + the (digitVal 10 (digit_char (n mod 10)))"
      by (simp add: show_nat.simps [of n] digitsValue_snoc)
    also have "\<dots> = (n div 10) * 10 + n mod 10"
      using "1.IH" False by (simp add: digitVal_digit_char)
    finally show ?thesis by simp
  qed
qed

lemma decimal_not_space: "isDecimalDigit c \<Longrightarrow> \<not> isWhiteSpace c"
  by (auto simp: isDecimalDigit_def isWhiteSpace_def)

lemma decimal_chars:
  "isDecimalDigit c \<Longrightarrow> c \<noteq> CHR ''+'' \<and> c \<noteq> CHR ''-'' \<and> c \<noteq> CHR ''x'' \<and> c \<noteq> CHR ''X''
     \<and> c \<noteq> CHR ''/'' \<and> c \<noteq> CHR '':'' \<and> c \<noteq> CHR ''p''"
  by (auto simp: isDecimalDigit_def)

lemma startsWith_Cons2:
  "startsWith s [a, b] \<Longrightarrow> b \<in> set s"
  by (cases s; cases "tl s") (auto simp: startsWith_def)

lemma parseInt_show_nat_fl:
  "parseInt (Some (show_nat n)) = (if n = 0 then Fin 0 else fl (of_nat n))"
proof -
  let ?s = "show_nat n"
  have dig: "\<forall>c\<in>set ?s. isDecimalDigit c" using show_nat_digits by blast
  obtain c cs where s: "?s = c # cs" using show_nat_not_Nil [of n] by (cases ?s) auto
  have c: "isDecimalDigit c" using dig s by simp
  have d1: "dropWhile isWhiteSpace ?s = ?s" using c s by (simp add: decimal_not_space)
  have sign: "hd ?s \<noteq> CHR ''+'' \<and> hd ?s \<noteq> CHR ''-''" using c s decimal_chars by simp
  have nx: "\<not> isDecimalDigit CHR ''x''" "\<not> isDecimalDigit CHR ''X''"
    by (simp_all add: isDecimalDigit_def)
  have nohex: "\<not> startsWith ?s ''0x'' \<and> \<not> startsWith ?s ''0X''"
  proof (intro conjI notI)
    assume "startsWith ?s ''0x''"
    then have "CHR ''x'' \<in> set ?s" by (rule startsWith_Cons2)
    then show False using dig nx(1) by simp
  next
    assume "startsWith ?s ''0X''"
    then have "CHR ''X'' \<in> set ?s" by (rule startsWith_Cons2)
    then show False using dig nx(2) by simp
  qed
  have tw: "takeWhile (\<lambda>c. digitVal 10 c \<noteq> None) ?s = ?s"
    using dig by (auto simp: takeWhile_eq_all_conv dest!: digitVal_decimal)
  show ?thesis
    using d1 sign nohex tw show_nat_not_Nil [of n]
    by (simp add: Let_def digitsValue_show_nat mk_zero_def show_nat_0 del: takeWhile_eq_all_conv)
qed

lemma parseInt_show_nat:
  assumes "n < 2 ^ 53"
  shows "parseInt (Some (show_nat n)) = Fin (of_nat n)"
proof (cases "n = 0")
  case True
  have "parseInt (Some (show_nat n)) = (if n = 0 then Fin 0 else fl (of_nat n))"
    by (rule parseInt_show_nat_fl)
  then show ?thesis using True by (simp del: parseInt.simps)
next
  case False
  then have pos: "0 < int n" by simp
  have "int n < int (2 ^ 53)" using assms by (simp only: of_nat_less_iff)
  then have "int n < 2 ^ 53" by simp
  with pos have "fl (of_int (int n)) = Fin (of_int (int n))" by (rule fl_int)
  then have "fl (of_nat n) = Fin (of_nat n)" by simp
  moreover have "parseInt (Some (show_nat n)) = (if n = 0 then Fin 0 else fl (of_nat n))"
    by (rule parseInt_show_nat_fl)
  ultimately show ?thesis using False by (simp del: parseInt.simps)
qed


lemma not_includes_if_absent: "x \<notin> set s \<Longrightarrow> \<not> includes_str s (x # r)"
  by (induction s) (auto simp: startsWith_def)

lemma splitFrom_no_sep:
  "sep \<noteq> [] \<Longrightarrow> \<not> includes_str s sep \<Longrightarrow> splitFrom sep cur s = [cur @ s]"
  by (induction s arbitrary: cur) (auto simp: startsWith_def)

lemma splitFrom_char:
  "ch \<notin> set a \<Longrightarrow> splitFrom [ch] cur (a @ ch # b) = (cur @ a) # splitFrom [ch] [] b"
  by (induction a arbitrary: cur) (auto simp: startsWith_def)

lemma split_fraction:
  assumes "CHR ''/'' \<notin> set a" and "CHR ''/'' \<notin> set b"
  shows "split (a @ ''/'' @ b) ''/'' = [a, b]"
  using assms by (simp add: split_def splitFrom_char splitFrom_no_sep not_includes_if_absent)

lemma splitFrom_colon_space:
  "\<not> includes_str a '': '' \<Longrightarrow>
   splitFrom '': '' cur (a @ CHR '':'' # CHR '' '' # d) = (cur @ a) # splitFrom '': '' [] d"
proof (induction a arbitrary: cur)
  case Nil
  then show ?case by (simp add: startsWith_def)
next
  case (Cons c a)
  have no: "\<not> startsWith (c # a @ CHR '':'' # CHR '' '' # d) '': ''"
    using Cons.prems by (cases a) (auto simp: startsWith_def)
  have "\<not> includes_str a '': ''" using Cons.prems by simp
  then show ?case using no Cons.IH [of "cur @ [c]"] by simp
qed

lemma split_detail:
  assumes "\<not> includes_str st '': ''" and "\<not> includes_str d '': ''"
  shows "split (st @ CHR '':'' # CHR '' '' # d) '': '' = [st, d]"
  using assms by (simp add: split_def splitFrom_colon_space splitFrom_no_sep)

lemma split_no_detail:
  "\<not> includes_str p '': '' \<Longrightarrow> split p '': '' = [p]"
  by (simp add: split_def splitFrom_no_sep)

lemma stage_names:
  "\<not> includes_str ''rendering'' '': ''" "\<not> includes_str ''uploading'' '': ''"
  "\<not> includes_str ''transcribing'' '': ''"
  by (simp_all add: startsWith_def)

lemma fraction_no_sep: "\<not> includes_str (show_nat c @ CHR ''/'' # show_nat t) '': ''"
proof -
  have "CHR '':'' \<notin> set (show_nat c @ CHR ''/'' # show_nat t)"
    using show_nat_digits decimal_chars by auto
  then show ?thesis by (rule not_includes_if_absent)
qed

lemma fraction_not_special:
  "show_nat c @ CHR ''/'' # show_nat t \<noteq> ''preparing...''"
proof -
  obtain x xs where s: "show_nat c = x # xs"
    using show_nat_not_Nil [of c] by (cases "show_nat c") auto
  then have "isDecimalDigit x" using show_nat_digits [of x c] by simp
  then have "x \<noteq> CHR ''p''" using decimal_chars by blast
  then show ?thesis using s by simp
qed

lemma fraction_parts:
  "split (show_nat c @ CHR ''/'' # show_nat t) ''/'' = [show_nat c, show_nat t]"
proof -
  have "CHR ''/'' \<notin> set (show_nat c)" "CHR ''/'' \<notin> set (show_nat t)"
    using show_nat_digits decimal_chars by blast+
  then show ?thesis using split_fraction by simp
qed

lemma rendering_fraction_value:
  assumes "c < 2 ^ 53" and "t < 2 ^ 53"
  shows "barWidth (''rendering: '' @ show_nat c @ ''/'' @ show_nat t)
           = Percent (Math_max (Fin 5)
               (js_mul (js_div (Fin (of_nat c)) (Fin (of_nat t))) (Fin 100)))"
proof -
  let ?val = "show_nat c @ CHR ''/'' # show_nat t"
  have sp: "split (''rendering'' @ CHR '':'' # CHR '' '' # ?val) '': '' = [''rendering'', ?val]"
    using stage_names(1) fraction_no_sep by (rule split_detail)
  have ix: "index (split (''rendering'' @ CHR '':'' # CHR '' '' # ?val) '': '') 1 = Some ?val"
    by (simp only: sp) (simp add: index_def)
  have st: "startsWith (''rendering'' @ CHR '':'' # CHR '' '' # ?val) ''rendering''"
    by (simp add: startsWith_def)
  have parts: "index (split ?val ''/'') 0 = Some (show_nat c)"
    "index (split ?val ''/'') 1 = Some (show_nat t)"
    by (simp_all add: fraction_parts index_def)
  have ne: "?val \<noteq> []" by simp
  have "barWidth (''rendering'' @ CHR '':'' # CHR '' '' # ?val)
           = Percent (Math_max (Fin 5)
               (js_mul (js_div (Fin (of_nat c)) (Fin (of_nat t))) (Fin 100)))"
    unfolding barWidth_def ix
    using st parts ne fraction_not_special [of c t]
    by (simp add: Let_def parseInt_show_nat [OF assms(1)] parseInt_show_nat [OF assms(2)]
        del: parseInt.simps)
  then show ?thesis by simp
qed

lemma abs_max_diff: "\<bar>max a b - max a c\<bar> \<le> \<bar>b - (c::rat)\<bar>"
  by (simp add: max_def abs_if)

text \<open>The ratio, rounded after the division and after the multiplication.\<close>

lemma ratio_rounded:
  assumes t: "1 \<le> t" and c53: "c < 2 ^ 53" and t53: "t < 2 ^ 53"
  shows "\<exists>w. Math_max (Fin 5) (js_mul (js_div (Fin (of_nat c)) (Fin (of_nat t))) (Fin 100)) = Fin w
           \<and> 5 \<le> w
           \<and> \<bar>w - max 5 (100 * of_nat c / of_nat t)\<bar> \<le> max 5 (100 * of_nat c / of_nat t) / 2 ^ 51"
proof (cases "c = 0")
  case True
  have "js_div (Fin 0) (Fin (of_nat t)) = Fin 0" using t by (simp add: js_div_def mk_zero_def)
  moreover have "js_mul (Fin 0) (Fin 100) = Fin 0" by (simp add: js_mul_def mk_zero_def)
  ultimately have "Math_max (Fin 5) (js_mul (js_div (Fin (of_nat c)) (Fin (of_nat t))) (Fin 100)) = Fin 5"
    using True by (simp add: Math_max_def)
  then show ?thesis using True by simp
next
  case False
  obtain x :: rat where x: "x = of_nat c / of_nat t" by simp
  have cpos: "(1::rat) \<le> of_nat c" using False by simp
  have tpos: "(1::rat) \<le> of_nat t" using t by simp
  have c_lt: "(of_nat c :: rat) < 2 ^ 53"
  proof -
    have "(of_nat c :: rat) < of_nat (2 ^ 53)" using c53 by (simp only: of_nat_less_iff)
    then show ?thesis by simp
  qed
  have t_lt: "(of_nat t :: rat) < 2 ^ 53"
  proof -
    have "(of_nat t :: rat) < of_nat (2 ^ 53)" using t53 by (simp only: of_nat_less_iff)
    then show ?thesis by simp
  qed
  have xpos: "0 < x" using cpos tpos x by simp
  have x_lo: "1 / 2 ^ 53 \<le> x"
  proof -
    have "1 / 2 ^ 53 \<le> 1 / (of_nat t :: rat)" using tpos t_lt by (simp add: field_simps)
    also have "\<dots> \<le> x" using cpos tpos x by (simp add: divide_right_mono)
    finally show ?thesis .
  qed
  have x_hi: "x < 2 ^ 53"
  proof -
    have "of_nat c / of_nat t \<le> of_nat c / (1::rat)"
      using cpos tpos by (intro divide_left_mono) simp_all
    then have "x \<le> of_nat c" using x by simp
    then show ?thesis using c_lt by simp
  qed
  have p53: "(2::rat) powi (- 53) = 1 / 2 ^ 53" by (simp add: power_int_minus_divide)
  have p54: "(2::rat) powi (- 54) = 1 / 2 ^ 54" by (simp add: power_int_minus_divide)
  have lo1: "2 powi (- 1022) \<le> x"
  proof -
    have "(2::rat) powi (- 1022) \<le> 2 powi (- 53)" by (intro power_int_increasing) simp_all
    then show ?thesis using x_lo p53 by linarith
  qed
  have hi1: "x < 2 powi 1023"
  proof -
    have "(2::rat) powi 53 \<le> 2 powi 1023" by (intro power_int_increasing) simp_all
    then show ?thesis using x_hi by simp
  qed
  obtain y1 where y1: "fl x = Fin y1" "\<bar>y1 - x\<bar> \<le> x / 2 ^ 53" "0 < y1"
    using fl_relative [OF lo1 hi1] by blast
  have x53: "x / 2 ^ 53 \<le> x / 2" using xpos by (simp add: field_simps)
  have y1_lo: "x / 2 \<le> y1" using y1(2) x53 by linarith
  have y1_hi: "y1 \<le> 2 * x" using y1(2) x53 xpos by linarith
  have div: "js_div (Fin (of_nat c)) (Fin (of_nat t)) = Fin y1"
    using False t y1(1) x by (simp add: js_div_def)
  have lo2: "2 powi (- 1022) \<le> y1 * 100"
  proof -
    have "(2::rat) powi (- 1022) \<le> 2 powi (- 54)" by (intro power_int_increasing) simp_all
    moreover have "1 / 2 ^ 54 \<le> x / 2" using x_lo by simp
    ultimately show ?thesis using y1_lo y1(3) p54 by linarith
  qed
  have hi2: "y1 * 100 < 2 powi 1023"
  proof -
    have "y1 * 100 < 2 ^ 61" using y1_hi x_hi by simp
    moreover have "(2::rat) powi 61 \<le> 2 powi 1023" by (intro power_int_increasing) simp_all
    ultimately show ?thesis by simp
  qed
  obtain y2 where y2: "fl (y1 * 100) = Fin y2" "\<bar>y2 - y1 * 100\<bar> \<le> y1 * 100 / 2 ^ 53" "0 < y2"
    using fl_relative [OF lo2 hi2] by blast
  have mul: "js_mul (Fin y1) (Fin 100) = Fin y2"
    using y1(3) y2(1) by (simp add: js_mul_def)
  have mx: "Math_max (Fin 5) (Fin y2) = Fin (max 5 y2)"
    by (simp add: Math_max_def max_def)
  have e1: "y1 * 100 / 2 ^ 53 \<le> 200 * x / 2 ^ 53" using y1_hi by simp
  have e2: "\<bar>y1 * 100 - 100 * x\<bar> \<le> 100 * x / 2 ^ 53"
  proof -
    have "\<bar>y1 * 100 - 100 * x\<bar> = 100 * \<bar>y1 - x\<bar>" by (simp add: abs_if)
    then show ?thesis using y1(2) by simp
  qed
  have "\<bar>y2 - 100 * x\<bar> \<le> 300 * x / 2 ^ 53" using y2(2) e1 e2 by linarith
  also have "\<dots> \<le> 100 * x / 2 ^ 51" using xpos by simp
  finally have err: "\<bar>y2 - 100 * x\<bar> \<le> 100 * x / 2 ^ 51" .
  have "\<bar>max 5 y2 - max 5 (100 * x)\<bar> \<le> \<bar>y2 - 100 * x\<bar>" by (rule abs_max_diff)
  also have "\<dots> \<le> 100 * x / 2 ^ 51" by (rule err)
  also have "\<dots> \<le> max 5 (100 * x) / 2 ^ 51" by (simp add: divide_right_mono)
  finally have "\<bar>max 5 y2 - max 5 (100 * x)\<bar> \<le> max 5 (100 * x) / 2 ^ 51" .
  moreover have "100 * x = 100 * of_nat c / of_nat t" using x by simp
  ultimately have "\<bar>max 5 y2 - max 5 (100 * of_nat c / of_nat t)\<bar>
      \<le> max 5 (100 * of_nat c / of_nat t) / 2 ^ 51" by (simp only:)
  then show ?thesis using div mul mx by simp
qed

text \<open>
  Claim C10, as the code has it: for the progress string \<^verbatim>\<open>rendering: c/t\<close> with
  \<open>t \<ge> 1\<close> and both numbers below \<open>2\<^sup>5\<^sup>3\<close> the width of the bar is \<open>w\<close> percent, where
  \<open>w\<close> is at least 5 and differs from the larger of 5 and \<open>100 c / t\<close> by at most the
  fraction \<open>2\<^sup>-\<^sup>5\<^sup>1\<close> of it (the quotient and the product are each rounded to a double);
  it is 5 percent at \<^verbatim>\<open>rendering: 0/t\<close>. A progress string without the separator, and
  one whose detail is \<^verbatim>\<open>preparing...\<close>, have the width \<^verbatim>\<open>5%\<close>.
\<close>

theorem rendering_bar_width:
  assumes "1 \<le> t" and "c < 2 ^ 53" and "t < 2 ^ 53"
  shows "(\<exists>w. barWidth (''rendering: '' @ show_nat c @ ''/'' @ show_nat t) = Percent (Fin w)
             \<and> 5 \<le> w
             \<and> \<bar>w - max 5 (100 * of_nat c / of_nat t)\<bar>
                  \<le> max 5 (100 * of_nat c / of_nat t) / 2 ^ 51)
       \<and> barWidth (''rendering: '' @ show_nat 0 @ ''/'' @ show_nat t) = Percent (Fin 5)
       \<and> (\<forall>p. \<not> includes_str p '': '' \<longrightarrow> barWidth p = Literal ''5%'')
       \<and> (\<forall>st. \<not> includes_str st '': '' \<longrightarrow> barWidth (st @ '': preparing...'') = Literal ''5%'')"
proof -
  have w: "\<exists>w. barWidth (''rendering: '' @ show_nat c @ ''/'' @ show_nat t) = Percent (Fin w)
             \<and> 5 \<le> w
             \<and> \<bar>w - max 5 (100 * of_nat c / of_nat t)\<bar>
                  \<le> max 5 (100 * of_nat c / of_nat t) / 2 ^ 51"
    using ratio_rounded [OF assms] by (simp only: rendering_fraction_value [OF assms(2,3)] width.inject)
  have z: "barWidth (''rendering: '' @ show_nat 0 @ ''/'' @ show_nat t) = Percent (Fin 5)"
  proof -
    have "js_div (Fin 0) (Fin (of_nat t)) = Fin 0"
      using assms(1) by (simp add: js_div_def mk_zero_def)
    moreover have "js_mul (Fin 0) (Fin 100) = Fin 0" by (simp add: js_mul_def mk_zero_def)
    moreover have "barWidth (''rendering: '' @ show_nat 0 @ ''/'' @ show_nat t)
           = Percent (Math_max (Fin 5)
               (js_mul (js_div (Fin (of_nat 0)) (Fin (of_nat t))) (Fin 100)))"
      using assms(3) by (intro rendering_fraction_value) simp_all
    ultimately show ?thesis by (simp add: Math_max_def)
  qed
  have missing: "barWidth p = Literal ''5%''" if "\<not> includes_str p '': ''" for p
    using that by (simp add: barWidth_def index_def split_no_detail)
  have prep: "barWidth (st @ '': preparing...'') = Literal ''5%''"
    if "\<not> includes_str st '': ''" for st
  proof -
    have "\<not> includes_str ''preparing...'' '': ''" by (simp add: startsWith_def)
    with that have "split (st @ CHR '':'' # CHR '' '' # ''preparing...'') '': '' = [st, ''preparing...'']"
      by (rule split_detail)
    then show ?thesis by (simp add: barWidth_def index_def)
  qed
  show ?thesis using w z missing prep by blast
qed


theorem rendering_bar_width_witness:
  "(\<exists>w. barWidth (''rendering: '' @ show_nat 3 @ ''/'' @ show_nat 10) = Percent (Fin w)
        \<and> 5 \<le> w \<and> \<bar>w - 30\<bar> \<le> 30 / 2 ^ 51)
   \<and> barWidth ''rendering'' = Literal ''5%''
   \<and> barWidth (''rendering'' @ '': preparing...'') = Literal ''5%''"
proof -
  have a: "(1::nat) \<le> 10" and b: "(3::nat) < 2 ^ 53" and c: "(10::nat) < 2 ^ 53" by simp_all
  have d: "\<not> includes_str ''rendering'' '': ''" by (simp add: startsWith_def)
  have e: "max 5 (100 * of_nat 3 / of_nat 10) = (30::rat)" by simp
  note t = rendering_bar_width [OF a b c]
  have w: "\<exists>w. barWidth (''rendering: '' @ show_nat 3 @ ''/'' @ show_nat 10) = Percent (Fin w)
        \<and> 5 \<le> w \<and> \<bar>w - 30\<bar> \<le> 30 / 2 ^ 51"
    using t by (simp only: e)
  have m: "barWidth ''rendering'' = Literal ''5%''" using t d by blast
  have p: "barWidth (''rendering'' @ '': preparing...'') = Literal ''5%''" using t d by blast
  show ?thesis using w m p by blast
qed

text \<open>
  The claim as written fails at \<^verbatim>\<open>rendering: 11/20\<close>: the double nearest to 11/20,
  times 100, rounds to the double above 55.
\<close>

lemma fl_11_20: "fl (11 / 20) = Fin (2476979795053773 / 4503599627370496)"
proof -
  have arg: "(11 / 20 / 2 powi (- 1 - 52) :: rat) = 11 / 20 * 2 ^ 53"
    by (simp add: power_int_minus_divide)
  have r: "round_even (11 / 20 * 2 ^ 53) = 4953959590107546" by code_simp
  have "fl (11 / 20) = Fin (of_int (round_even (11 / 20 / 2 powi (- 1 - 52))) * 2 powi (- 1 - 52))"
    by (rule fl_at) (simp_all add: power_int_minus_divide)
  then show ?thesis by (simp only: arg r) (simp add: power_int_minus_divide)
qed

lemma fl_55: "fl (2476979795053773 / 4503599627370496 * 100) = Fin (55 + 1 / 2 ^ 47)"
proof -
  have arg: "(2476979795053773 / 4503599627370496 * 100 / 2 powi (5 - 52) :: rat)
      = 2476979795053773 / 4503599627370496 * 100 * 2 ^ 47"
    by (simp add: power_int_minus_divide)
  have r: "round_even (2476979795053773 / 4503599627370496 * 100 * 2 ^ 47) = 7740561859543041"
    by code_simp
  have "fl (2476979795053773 / 4503599627370496 * 100)
      = Fin (of_int (round_even (2476979795053773 / 4503599627370496 * 100 / 2 powi (5 - 52)))
              * 2 powi (5 - 52))"
    by (rule fl_at) simp_all
  then show ?thesis by (simp only: arg r) (simp add: power_int_minus_divide)
qed

theorem rendering_width_counterexample:
  "barWidth ''rendering: 11/20'' = Percent (Fin (55 + 1 / 2 ^ 47))
   \<and> barWidth ''rendering: 11/20'' \<noteq> Percent (Fin (max 5 (100 * 11 / 20)))"
proof -
  have s11: "show_nat 11 = ''11''" and s20: "show_nat 20 = ''20''" by code_simp+
  have "barWidth (''rendering: '' @ show_nat 11 @ ''/'' @ show_nat 20)
      = Percent (Math_max (Fin 5) (js_mul (js_div (Fin (of_nat 11)) (Fin (of_nat 20))) (Fin 100)))"
    by (rule rendering_fraction_value) simp_all
  moreover have "js_div (Fin 11) (Fin 20) = Fin (2476979795053773 / 4503599627370496)"
    using fl_11_20 by (simp add: js_div_def)
  moreover have "js_mul (Fin (2476979795053773 / 4503599627370496)) (Fin 100) = Fin (55 + 1 / 2 ^ 47)"
    using fl_55 by (simp add: js_mul_def)
  ultimately have "barWidth ''rendering: 11/20'' = Percent (Fin (55 + 1 / 2 ^ 47))"
    by (simp add: s11 s20 Math_max_def)
  then show ?thesis by simp
qed

subsection \<open>The progress panel\<close>

lemma stage_label:
  assumes "CHR '':'' \<notin> set st"
  shows "index (split (st @ CHR '':'' # r) '':'') 0 = Some st"
  using assms by (simp add: split_def splitFrom_char index_def)

lemma analyzing_not_measured: "startsWith p ''analyzing'' \<Longrightarrow> \<not> measured p"
  by (cases p) (auto simp: measured_def startsWith_def)

lemma stage_measured:
  assumes "st = ''uploading'' \<or> st = ''transcribing'' \<or> st = ''rendering''"
  shows "measured (st @ r) \<and> CHR '':'' \<notin> set st \<and> \<not> includes_str st '': ''"
  using assms by (auto simp: measured_def startsWith_def)

text \<open>
  Claim C1, as the code has it. For a stage \<^verbatim>\<open>uploading\<close>, \<^verbatim>\<open>transcribing\<close> or
  \<^verbatim>\<open>rendering\<close> and a detail that is not empty, is not \<^verbatim>\<open>preparing...\<close> and does not
  contain the separator, the string \<^verbatim>\<open><stage>: <detail>\<close> is shown with the detail in
  the badge and the stage and the detail over the bar, in both copies of the component;
  for the two percentage stages the bar has the detail as its width (a percent sign
  added if it has none). The bare stage name is shown with \<^verbatim>\<open>...\<close> in the badge, and
  the detail \<^verbatim>\<open>preparing...\<close> with \<^verbatim>\<open>5%\<close>. Every string that starts with
  \<^verbatim>\<open>analyzing\<close> gets the spinner and the pulsing bar with fixed captions, whatever
  follows the prefix.
\<close>

theorem progress_classified:
  assumes "st = ''uploading'' \<or> st = ''transcribing'' \<or> st = ''rendering''"
    and "d \<noteq> []" and "d \<noteq> ''preparing...''" and "\<not> includes_str d '': ''"
  shows "progressBadge (st @ '': '' @ d) = Circle d
       \<and> progressPanel (st @ '': '' @ d) = Bar (Some st) (Some d) (barWidth (st @ '': '' @ d))
       \<and> progressPanel_frontend (st @ '': '' @ d) = progressPanel (st @ '': '' @ d)
       \<and> (st \<noteq> ''rendering'' \<longrightarrow>
            barWidth (st @ '': '' @ d) = Literal (if includes_str d ''%'' then d else d @ ''%''))
       \<and> progressBadge st = Circle ''...''
       \<and> progressBadge (st @ '': preparing...'') = Circle ''5%''
       \<and> (\<forall>p. startsWith p ''analyzing'' \<longrightarrow>
              progressBadge p = Spinner
              \<and> progressPanel p = Pulse ''Analyzing Transcript'' ''AI is finding clips...''
              \<and> progressPanel_frontend p = Pulse p ''AI is finding clips...'')"
proof -
  let ?p = "st @ CHR '':'' # CHR '' '' # d"
  have m: "measured ?p" and colon: "CHR '':'' \<notin> set st" and nosep: "\<not> includes_str st '': ''"
    using stage_measured [OF assms(1)] by simp_all
  have sp: "split ?p '': '' = [st, d]" using nosep assms(4) by (rule split_detail)
  have ix: "index (split ?p '': '') 1 = Some d" by (simp only: sp) (simp add: index_def)
  have lab: "index (split ?p '':'') 0 = Some st" using colon by (rule stage_label)
  have badge: "progressBadge ?p = Circle d"
    unfolding progressBadge_def circleText_def ix using m assms(2,3) by simp
  have panel: "progressPanel ?p = Bar (Some st) (Some d) (barWidth ?p)"
    unfolding progressPanel_def ix lab using m by simp
  have front: "progressPanel_frontend ?p = progressPanel ?p"
    using m by (simp add: progressPanel_def progressPanel_frontend_def)
  have pct: "barWidth ?p = Literal (if includes_str d ''%'' then d else d @ ''%'')"
    if "st \<noteq> ''rendering''"
  proof -
    have "\<not> startsWith ?p ''rendering''"
      using assms(1) that by (auto simp: startsWith_def)
    then show ?thesis unfolding barWidth_def ix using assms(2,3) by simp
  qed
  have none: "progressBadge st = Circle ''...''"
  proof -
    have "measured st" using stage_measured [OF assms(1), of "[]"] by simp
    moreover have "split st '': '' = [st]" using nosep by (rule split_no_detail)
    ultimately show ?thesis by (simp add: progressBadge_def circleText_def index_def)
  qed
  have prep: "progressBadge (st @ '': preparing...'') = Circle ''5%''"
  proof -
    have "measured (st @ '': preparing...'')" using stage_measured [OF assms(1)] by blast
    moreover have "\<not> includes_str ''preparing...'' '': ''" by (simp add: startsWith_def)
    with nosep have "split (st @ CHR '':'' # CHR '' '' # ''preparing...'') '': '' = [st, ''preparing...'']"
      by (rule split_detail)
    ultimately show ?thesis by (simp add: progressBadge_def circleText_def index_def)
  qed
  have an: "progressBadge p = Spinner
              \<and> progressPanel p = Pulse ''Analyzing Transcript'' ''AI is finding clips...''
              \<and> progressPanel_frontend p = Pulse p ''AI is finding clips...''"
    if "startsWith p ''analyzing''" for p
    using that analyzing_not_measured [OF that]
    by (simp add: progressBadge_def progressPanel_def progressPanel_frontend_def)
  have b': "progressBadge (st @ '': '' @ d) = Circle d" using badge by simp
  have p': "progressPanel (st @ '': '' @ d) = Bar (Some st) (Some d) (barWidth (st @ '': '' @ d))"
    using panel by simp
  have f': "progressPanel_frontend (st @ '': '' @ d) = progressPanel (st @ '': '' @ d)"
    using front by simp
  have w': "st \<noteq> ''rendering'' \<longrightarrow>
            barWidth (st @ '': '' @ d) = Literal (if includes_str d ''%'' then d else d @ ''%'')"
    using pct by simp
  show ?thesis using b' p' f' w' none prep an by (intro conjI allI impI) blast+
qed

theorem progress_classified_witness:
  "progressBadge ''uploading: 42%'' = Circle ''42%''
   \<and> progressPanel ''uploading: 42%'' = Bar (Some ''uploading'') (Some ''42%'') (Literal ''42%'')
   \<and> progressPanel ''analyzing'' = Pulse ''Analyzing Transcript'' ''AI is finding clips...''"
proof -
  have a: "''uploading'' = ''uploading'' \<or> ''uploading'' = ''transcribing'' \<or> ''uploading'' = ''rendering''"
    by simp
  have b: "''42%'' \<noteq> []" and c: "''42%'' \<noteq> ''preparing...''" by simp_all
  have d: "\<not> includes_str ''42%'' '': ''" by (simp add: startsWith_def)
  have e: "startsWith ''analyzing'' ''analyzing''" by (simp add: startsWith_def)
  have f: "''uploading'' \<noteq> ''rendering''" by simp
  have g: "includes_str ''42%'' ''%''" by (simp add: startsWith_def)
  from progress_classified [OF a b c d] e f g show ?thesis by simp
qed

text \<open>
  The claim as written fails: \<^verbatim>\<open>rendering: preparing...\<close> starts with a measured
  stage and carries a detail, but the badge shows \<^verbatim>\<open>5%\<close> instead of it; \<^verbatim>\<open>uploading\<close>
  starts with a measured stage and carries no detail.
\<close>

theorem progress_detail_counterexample:
  "measured ''rendering: preparing...''
   \<and> index (split ''rendering: preparing...'' '': '') 1 = Some ''preparing...''
   \<and> progressBadge ''rendering: preparing...'' = Circle ''5%''
   \<and> measured ''uploading''
   \<and> index (split ''uploading'' '': '') 1 = None
   \<and> progressBadge ''uploading'' = Circle ''...''"
  by (simp add: measured_def progressBadge_def circleText_def split_def index_def startsWith_def)

end
